theory Spec2Isabelle
  imports Complex_Main
begin

section \<open>The 2048 game logic of script.js\<close>

text \<open>
  The module keeps its state in top-level variables; the model collects them in a record
  and every function takes the state and returns the updated one. Cell values and scores
  are JavaScript numbers that only ever hold integers (0, a tile value, a sum of tile
  values), far below the range where a double stops being exact; they are modelled as
  \<open>int\<close>.
\<close>

subsection \<open>Data\<close>

definition SIZE :: nat where
  "SIZE = 4"

text \<open>The object returned by \<open>slideCombineRow\<close>.\<close>

record slideResult =
  newRow :: "int list"
  mergedIndices :: "nat list"
  gained :: int

subsection \<open>slideCombineRow\<close>

text \<open>\<open>arr.splice(k, 1)\<close>: remove the entry at index \<open>k\<close>.\<close>

definition spliceOne :: "int list \<Rightarrow> nat \<Rightarrow> int list" where
  "spliceOne arr k = take k arr @ drop (k + 1) arr"

text \<open>
  The merging loop \<open>for (let i = 0; i < arr.length - 1; i++)\<close>. The array shrinks while
  the loop runs, so the bound is read again at every iteration; \<open>arr.length - 1\<close> is -1 on
  the empty array, hence the comparison over \<open>int\<close>.
\<close>

function mergeLoop :: "nat \<Rightarrow> int list \<Rightarrow> int \<Rightarrow> nat list \<Rightarrow> int list \<times> nat list \<times> int" where
  "mergeLoop i arr gain merged =
     (if int i < int (length arr) - 1 then
        (if arr ! i = arr ! (i + 1) then
           mergeLoop (i + 1)
             (spliceOne (arr[i := arr ! i * 2]) (i + 1))
             (gain + (arr[i := arr ! i * 2]) ! i)
             (merged @ [i])
         else mergeLoop (i + 1) arr gain merged)
      else (arr, merged, gain))"
  by pat_completeness auto
termination
  by (relation "measure (\<lambda>(i, arr, gain, merged). length arr - i)")
     (auto simp: spliceOne_def)

declare mergeLoop.simps [simp del]

text \<open>\<open>while (arr.length < SIZE) arr.push(0)\<close>.\<close>

function padZeros :: "int list \<Rightarrow> int list" where
  "padZeros arr = (if length arr < SIZE then padZeros (arr @ [0]) else arr)"
  by pat_completeness auto
termination
  by (relation "measure (\<lambda>arr. SIZE - length arr)") auto

declare padZeros.simps [simp del]

definition slideCombineRow :: "int list \<Rightarrow> slideResult" where
  "slideCombineRow row =
     (case mergeLoop 0 (filter (\<lambda>v. v \<noteq> 0) row) 0 [] of
        (arr, merged, gain) \<Rightarrow>
          \<lparr>newRow = padZeros arr, mergedIndices = merged, gained = gain\<rparr>)"

subsection \<open>The line transform as the specification words it\<close>

text \<open>
  A second definition, written from the specification's description of
  \<open>compactAndMerge\<close>: scan left to right, an adjacent equal pair becomes one entry of
  double the value and the scan goes on behind the pair, so that the doubled entry is
  never compared again. \<open>specMergedAt k\<close> lists the output indices of the merges when
  the scan starts at output index \<open>k\<close>.
\<close>

fun specMergedLine :: "int list \<Rightarrow> int list" where
  "specMergedLine (x # y # xs) =
     (if x = y then (2 * x) # specMergedLine xs else x # specMergedLine (y # xs))"
| "specMergedLine xs = xs"

fun specMergedAt :: "nat \<Rightarrow> int list \<Rightarrow> nat list" where
  "specMergedAt k (x # y # xs) =
     (if x = y then k # specMergedAt (k + 1) xs else specMergedAt (k + 1) (y # xs))"
| "specMergedAt k xs = []"

fun specGained :: "int list \<Rightarrow> int" where
  "specGained (x # y # xs) =
     (if x = y then 2 * x + specGained xs else specGained (y # xs))"
| "specGained xs = 0"

definition specCompactAndMerge :: "int list \<Rightarrow> slideResult" where
  "specCompactAndMerge line =
     (let compacted = filter (\<lambda>v. v \<noteq> 0) line;
          merged = specMergedLine compacted
      in \<lparr>newRow = merged @ replicate (SIZE - length merged) 0,
          mergedIndices = specMergedAt 0 compacted,
          gained = specGained compacted\<rparr>)"

subsection \<open>The module state\<close>

text \<open>
  \<open>messageEl.textContent\<close> only ever receives one of three texts. The other DOM writes
  (tiles, CSS classes, colours), the vibration call and \<open>userHasInteracted\<close> never flow
  back into the game logic and are left out. \<open>mergedMap\<close> is an object used as a set of
  keys \<open>"r,c"\<close>; \<open>lastGrid\<close> is \<open>null\<close> or a grid.
\<close>

datatype messageText = NoMessage | YouWin | GameOverMessage

record game =
  grid :: "int list list"
  score :: int
  lastGrid :: "int list list option"
  lastScore :: int
  lastAddedPos :: "(nat \<times> nat) option"
  mergedMap :: "(int \<times> int) set"
  gameOver :: bool
  gameWon :: bool
  bestScore :: int
  message :: messageText

text \<open>
  The top-level initialisers; \<open>bestScore\<close> comes from \<open>localStorage\<close> (0 when absent or
  unparsable).
\<close>

definition initial :: "int \<Rightarrow> game" where
  "initial best =
     \<lparr>grid = [], score = 0, lastGrid = None, lastScore = 0, lastAddedPos = None,
      mergedMap = {}, gameOver = False, gameWon = False, bestScore = best,
      message = NoMessage\<rparr>"

definition copyGrid :: "int list list \<Rightarrow> int list list" where
  "copyGrid src = map (\<lambda>row. row) src"

definition updateScoreDisplay :: "game \<Rightarrow> game" where
  "updateScoreDisplay s = (if score s > bestScore s then s\<lparr>bestScore := score s\<rparr> else s)"

definition bumpScore :: "int \<Rightarrow> game \<Rightarrow> game" where
  "bumpScore additional s = updateScoreDisplay (s\<lparr>score := score s + additional\<rparr>)"

text \<open>
  \<open>render\<close> draws the board, calls \<open>updateScoreDisplay\<close> and starts a timer of 300 ms;
  \<open>renderTimeout\<close> is what the timer's callback does to the state when it fires.
\<close>

definition render :: "game \<Rightarrow> game" where
  "render s = updateScoreDisplay s"

definition renderTimeout :: "game \<Rightarrow> game" where
  "renderTimeout s = s\<lparr>mergedMap := {}, lastAddedPos := None\<rparr>"

subsection \<open>addRandomTile\<close>

text \<open>The positions pushed to \<open>empty\<close>, in the order of the two nested loops.\<close>

definition emptyCells :: "int list list \<Rightarrow> (nat \<times> nat) list" where
  "emptyCells g =
     concat (map (\<lambda>r. concat (map (\<lambda>c. if g ! r ! c = 0 then [(r, c)] else []) [0..<SIZE]))
       [0..<SIZE])"

text \<open>
  \<open>Math.random()\<close> returns a double that is at least 0 and below 1. Such a double is
  \<open>mant / 2 ^ expo\<close> for a mantissa of at most 53 bits and an exponent of at most 1074
  (normal and subnormal numbers alike), and every such quotient below 1 is a double.
\<close>

record draw =
  mant :: nat
  expo :: nat

definition drawValue :: "draw \<Rightarrow> real" where
  "drawValue d = real (mant d) / 2 ^ expo d"

definition unitDraw :: "draw \<Rightarrow> bool" where
  "unitDraw d = (mant d < 2 ^ 53 \<and> expo d \<le> 1074 \<and> mant d < 2 ^ expo d)"

text \<open>The number of binary digits of a natural number.\<close>

fun bitLength :: "nat \<Rightarrow> nat" where
  "bitLength n = (if n = 0 then 0 else Suc (bitLength (n div 2)))"

declare bitLength.simps [simp del]

text \<open>
  \<open>Math.random() * empty.length\<close> is a multiplication of doubles: the exact product
  \<open>mant * n / 2 ^ expo\<close> is rounded to the nearest double, a tie going to the even
  mantissa. \<open>roundedProduct\<close> is the numerator of the result over \<open>2 ^ expo\<close>: a product
  of at most 53 bits is exact, a longer one loses its last \<open>sh\<close> bits. (The result is a
  normal number whenever bits are lost, and far from overflow.) \<open>Math.floor\<close> of the
  result is \<open>randomIndex\<close>.
\<close>

definition roundedProduct :: "draw \<Rightarrow> nat \<Rightarrow> nat" where
  "roundedProduct d n =
     (let p = mant d * n; b = bitLength p in
      if b \<le> 53 then p
      else
        (let sh = b - 53; q = p div 2 ^ sh; r = p mod 2 ^ sh; half = 2 ^ (sh - 1)
         in (if r > half \<or> (r = half \<and> odd q) then q + 1 else q) * 2 ^ sh))"

definition randomIndex :: "draw \<Rightarrow> nat \<Rightarrow> nat" where
  "randomIndex d n = roundedProduct d n div 2 ^ expo d"

text \<open>The literal \<open>0.9\<close> denotes the double nearest to nine tenths.\<close>

definition pointNine :: real where
  "pointNine = 8106479329266893 / 2 ^ 53"

text \<open>
  \<open>u1\<close> and \<open>u2\<close> are the doubles the two calls of \<open>Math.random()\<close> return. The result
  pairs the returned position (\<open>None\<close> for \<open>null\<close>) with the new state.
\<close>

definition addRandomTile :: "draw \<Rightarrow> draw \<Rightarrow> game \<Rightarrow> (nat \<times> nat) option \<times> game" where
  "addRandomTile u1 u2 s =
     (let empty = emptyCells (grid s) in
      if length empty = 0 then (None, s\<lparr>lastAddedPos := None\<rparr>)
      else
        (let pos = empty ! randomIndex u1 (length empty);
             v = (if drawValue u2 < pointNine then 2 else 4)
         in (Some pos,
             s\<lparr>grid := (grid s)[fst pos := (grid s ! fst pos)[snd pos := v]],
               lastAddedPos := Some pos\<rparr>)))"

subsection \<open>initGame\<close>

definition initGame :: "draw \<Rightarrow> draw \<Rightarrow> draw \<Rightarrow> draw \<Rightarrow> game \<Rightarrow> game" where
  "initGame u1 u2 u3 u4 s =
     (let s0 = s\<lparr>grid := replicate SIZE (replicate SIZE 0), score := 0, lastGrid := None,
                 lastScore := 0, lastAddedPos := None, mergedMap := {}, gameOver := False,
                 gameWon := False, message := NoMessage\<rparr>;
          s1 = snd (addRandomTile u1 u2 s0);
          s2 = snd (addRandomTile u3 u4 s1)
      in updateScoreDisplay (render s2))"

subsection \<open>The four movement functions\<close>

text \<open>
  Each \<open>for\<close> loop runs its index over \<open>0, ..., SIZE - 1\<close> and is a \<open>fold\<close> of its body
  over \<open>[0..<SIZE]\<close>; the loop variables \<open>moved\<close> and \<open>totalGained\<close> travel with the state.
  \<open>JSON.stringify\<close> of two arrays of integers differs exactly when the arrays differ.
\<close>

definition leftRowStep :: "nat \<Rightarrow> bool \<times> int \<times> game \<Rightarrow> bool \<times> int \<times> game" where
  "leftRowStep r = (\<lambda>(moved, totalGained, s).
     let original = grid s ! r;
         res = slideCombineRow original
     in (moved \<or> original \<noteq> newRow res,
         totalGained + gained res,
         s\<lparr>grid := (grid s)[r := newRow res],
           mergedMap := mergedMap s \<union> (\<lambda>ci. (int r, int ci)) ` set (mergedIndices res)\<rparr>))"

definition moveLeftCore :: "game \<Rightarrow> bool \<times> game" where
  "moveLeftCore s =
     (case fold leftRowStep [0..<SIZE] (False, 0, s\<lparr>mergedMap := {}\<rparr>) of
        (moved, totalGained, s1) \<Rightarrow>
          (moved, if totalGained > 0 then bumpScore totalGained s1 else s1))"

definition rightRowStep :: "nat \<Rightarrow> bool \<times> int \<times> game \<Rightarrow> bool \<times> int \<times> game" where
  "rightRowStep r = (\<lambda>(moved, totalGained, s).
     let original = grid s ! r;
         reversed = rev original;
         res = slideCombineRow reversed;
         finalRow = rev (newRow res)
     in (moved \<or> original \<noteq> finalRow,
         totalGained + gained res,
         s\<lparr>grid := (grid s)[r := finalRow],
           mergedMap := mergedMap s \<union>
             (\<lambda>idx. (int r, int SIZE - 1 - int idx)) ` set (mergedIndices res)\<rparr>))"

definition moveRightCore :: "game \<Rightarrow> bool \<times> game" where
  "moveRightCore s =
     (case fold rightRowStep [0..<SIZE] (False, 0, s\<lparr>mergedMap := {}\<rparr>) of
        (moved, totalGained, s1) \<Rightarrow>
          (moved, if totalGained > 0 then bumpScore totalGained s1 else s1))"

text \<open>\<open>for (let r = 0; r < SIZE; r++) col.push(grid[r][c])\<close>.\<close>

definition colOf :: "int list list \<Rightarrow> nat \<Rightarrow> int list" where
  "colOf g c = map (\<lambda>r. g ! r ! c) [0..<SIZE]"

text \<open>
  The body of the loop that writes a line back into column \<open>c\<close>:
  \<open>if (grid[r][c] !== line[r]) moved = true; grid[r][c] = line[r]\<close>.
\<close>

definition writeCell ::
  "nat \<Rightarrow> int list \<Rightarrow> nat \<Rightarrow> bool \<times> int list list \<Rightarrow> bool \<times> int list list" where
  "writeCell c line r = (\<lambda>(moved, g).
     (moved \<or> g ! r ! c \<noteq> line ! r, g[r := (g ! r)[c := line ! r]]))"

definition upColStep :: "nat \<Rightarrow> bool \<times> int \<times> game \<Rightarrow> bool \<times> int \<times> game" where
  "upColStep c = (\<lambda>(moved, totalGained, s).
     let col = colOf (grid s) c;
         res = slideCombineRow col
     in case fold (writeCell c (newRow res)) [0..<SIZE] (moved, grid s) of
          (moved1, g1) \<Rightarrow>
            (moved1,
             totalGained + gained res,
             s\<lparr>grid := g1,
               mergedMap := mergedMap s \<union>
                 (\<lambda>ridx. (int ridx, int c)) ` set (mergedIndices res)\<rparr>))"

definition moveUpCore :: "game \<Rightarrow> bool \<times> game" where
  "moveUpCore s =
     (case fold upColStep [0..<SIZE] (False, 0, s\<lparr>mergedMap := {}\<rparr>) of
        (moved, totalGained, s1) \<Rightarrow>
          (moved, if totalGained > 0 then bumpScore totalGained s1 else s1))"

definition downColStep :: "nat \<Rightarrow> bool \<times> int \<times> game \<Rightarrow> bool \<times> int \<times> game" where
  "downColStep c = (\<lambda>(moved, totalGained, s).
     let col = colOf (grid s) c;
         reversed = rev col;
         res = slideCombineRow reversed;
         finalCol = rev (newRow res)
     in case fold (writeCell c finalCol) [0..<SIZE] (moved, grid s) of
          (moved1, g1) \<Rightarrow>
            (moved1,
             totalGained + gained res,
             s\<lparr>grid := g1,
               mergedMap := mergedMap s \<union>
                 (\<lambda>idx. (int SIZE - 1 - int idx, int c)) ` set (mergedIndices res)\<rparr>))"

definition moveDownCore :: "game \<Rightarrow> bool \<times> game" where
  "moveDownCore s =
     (case fold downColStep [0..<SIZE] (False, 0, s\<lparr>mergedMap := {}\<rparr>) of
        (moved, totalGained, s1) \<Rightarrow>
          (moved, if totalGained > 0 then bumpScore totalGained s1 else s1))"

subsection \<open>checkGameState\<close>

definition hasMoves :: "int list list \<Rightarrow> bool" where
  "hasMoves g =
     list_ex (\<lambda>r. list_ex (\<lambda>c.
         g ! r ! c = 0
         \<or> (c < SIZE - 1 \<and> g ! r ! c = g ! r ! (c + 1))
         \<or> (r < SIZE - 1 \<and> g ! r ! c = g ! (r + 1) ! c)) [0..<SIZE]) [0..<SIZE]"

definition checkGameState :: "game \<Rightarrow> game" where
  "checkGameState s =
     (if list_ex (\<lambda>row. 2048 \<in> set row) (grid s) \<and> \<not> gameWon s
        then s\<lparr>gameWon := True, message := YouWin\<rparr>
      else if \<not> hasMoves (grid s)
        then s\<lparr>gameOver := True, message := GameOverMessage\<rparr>
      else s\<lparr>message := NoMessage\<rparr>)"

subsection \<open>handleMove and undoMove\<close>

text \<open>
  The four \<open>if (direction === ...) moved = ...Core()\<close> statements. The direction is the
  string the caller passes; the result pairs the local \<open>moved\<close> with the state.
\<close>

definition runCore :: "string \<Rightarrow> game \<Rightarrow> bool \<times> game" where
  "runCore direction s =
     (let m0 = (False, s);
          m1 = (if direction = ''left'' then moveLeftCore (snd m0) else m0);
          m2 = (if direction = ''right'' then moveRightCore (snd m1) else m1);
          m3 = (if direction = ''up'' then moveUpCore (snd m2) else m2);
          m4 = (if direction = ''down'' then moveDownCore (snd m3) else m3)
      in m4)"

definition handleMove :: "string \<Rightarrow> draw \<Rightarrow> draw \<Rightarrow> game \<Rightarrow> game" where
  "handleMove direction u1 u2 s =
     (if gameOver s \<or> gameWon s then s
      else
        (let prevGrid = copyGrid (grid s);
             prevScore = score s
         in case runCore direction s of
              (moved, s1) \<Rightarrow>
                if moved then
                  checkGameState (render (snd (addRandomTile u1 u2
                    (s1\<lparr>lastGrid := Some prevGrid, lastScore := prevScore\<rparr>))))
                else s1\<lparr>mergedMap := {}, lastAddedPos := None\<rparr>))"

definition undoMove :: "game \<Rightarrow> game" where
  "undoMove s =
     (case lastGrid s of
        None \<Rightarrow> s
      | Some saved \<Rightarrow>
          updateScoreDisplay (render
            (s\<lparr>grid := copyGrid saved, score := lastScore s, lastGrid := None,
               lastScore := 0, lastAddedPos := None, mergedMap := {}, gameOver := False,
               gameWon := False, message := NoMessage\<rparr>)))"

text \<open>
  What a call of \<open>undoMove\<close> hands back to its caller: the \<open>return\<close> of the first
  line carries no value, and neither does the end of the body, so both paths yield
  \<open>undefined\<close>.
\<close>

datatype returned = Undefined | ReturnedState game

definition undoMoveReturn :: "game \<Rightarrow> returned" where
  "undoMoveReturn s = (case lastGrid s of None \<Rightarrow> Undefined | Some saved \<Rightarrow> Undefined)"

text \<open>
  How a call of \<open>handleMove\<close> completes. The function contains no \<open>throw\<close> and, on a
  4 by 4 grid, no operation that can raise, so every call completes normally.
\<close>

datatype error = InvalidArgument

definition handleMoveCompletion :: "string \<Rightarrow> draw \<Rightarrow> draw \<Rightarrow> game \<Rightarrow> error + game" where
  "handleMoveCompletion direction u1 u2 s = Inr (handleMove direction u1 u2 s)"

subsection \<open>Notions used by the properties\<close>

text \<open>A grid of \<open>SIZE\<close> rows of \<open>SIZE\<close> cells.\<close>

definition wf_grid :: "int list list \<Rightarrow> bool" where
  "wf_grid g = (length g = SIZE \<and> list_all (\<lambda>row. length row = SIZE) g)"

text \<open>The sum of all cell values.\<close>

definition gridSum :: "int list list \<Rightarrow> int" where
  "gridSum g = sum_list (map sum_list g)"

text \<open>
  The specification's \<open>changed\<close> of a move attempt: the attempt is not rejected and the
  movement function reports a move.
\<close>

definition changed :: "string \<Rightarrow> game \<Rightarrow> bool" where
  "changed direction s = (\<not> (gameOver s \<or> gameWon s) \<and> fst (runCore direction s))"

text \<open>
  The specification's score delta of a move: the grid is read as four lines in the
  orientation of the direction (rows left to right, rows reversed, columns top to bottom,
  columns reversed), and \<open>gained\<close> is summed over the lines.
\<close>

definition lineOf :: "string \<Rightarrow> int list list \<Rightarrow> nat \<Rightarrow> int list" where
  "lineOf direction g i =
     (if direction = ''left'' then g ! i
      else if direction = ''right'' then rev (g ! i)
      else if direction = ''up'' then colOf g i
      else rev (colOf g i))"

definition moveGain :: "string \<Rightarrow> int list list \<Rightarrow> int" where
  "moveGain direction g =
     (if direction \<in> {''left'', ''right'', ''up'', ''down''}
      then sum_list (map (\<lambda>i. gained (slideCombineRow (lineOf direction g i))) [0..<SIZE])
      else 0)"

text \<open>The value of the tile at \<open>lastAddedPos\<close>, 0 when no tile was added.\<close>

definition spawnedValue :: "game \<Rightarrow> int" where
  "spawnedValue s = (case lastAddedPos s of None \<Rightarrow> 0 | Some (r, c) \<Rightarrow> grid s ! r ! c)"

text \<open>Some non-zero entry of the line equals its right neighbour.\<close>

fun adjacentEqual :: "int list \<Rightarrow> bool" where
  "adjacentEqual (x # y # xs) = ((x \<noteq> 0 \<and> x = y) \<or> adjacentEqual (y # xs))"
| "adjacentEqual xs = False"

text \<open>A cell value is 0 or a power of two that is at least 2.\<close>

definition tileValue :: "int \<Rightarrow> bool" where
  "tileValue v = (v = 0 \<or> (\<exists>k\<ge>1. v = 2 ^ k))"

definition tileGrid :: "int list list \<Rightarrow> bool" where
  "tileGrid g = (\<forall>row \<in> set g. \<forall>v \<in> set row. tileValue v)"

text \<open>
  The states the page can be in: the \<open>DOMContentLoaded\<close> handler calls \<open>initGame\<close> on the
  initial variables, and from then on the restart button, a key or swipe, the undo button
  and the timers of \<open>render\<close> change the state.
\<close>

inductive reachable :: "game \<Rightarrow> bool" where
  start: "unitDraw u1 \<Longrightarrow> unitDraw u2 \<Longrightarrow> unitDraw u3 \<Longrightarrow> unitDraw u4 \<Longrightarrow>
    reachable (initGame u1 u2 u3 u4 (initial best))"
| restart: "reachable s \<Longrightarrow> unitDraw u1 \<Longrightarrow> unitDraw u2 \<Longrightarrow> unitDraw u3 \<Longrightarrow> unitDraw u4 \<Longrightarrow>
    reachable (initGame u1 u2 u3 u4 s)"
| move: "reachable s \<Longrightarrow> unitDraw u1 \<Longrightarrow> unitDraw u2 \<Longrightarrow>
    reachable (handleMove direction u1 u2 s)"
| undo: "reachable s \<Longrightarrow> reachable (undoMove s)"
| timeout: "reachable s \<Longrightarrow> reachable (renderTimeout s)"

subsection \<open>Auxiliary notions for the proofs\<close>

text \<open>The grid after a line has been written back into column \<open>c\<close>.\<close>

definition setCol :: "int list list \<Rightarrow> nat \<Rightarrow> int list \<Rightarrow> int list list" where
  "setCol g c line = map (\<lambda>r. (g ! r)[c := line ! r]) [0..<SIZE]"

text \<open>Some cell of the grid is empty.\<close>

definition hasZero :: "int list list \<Rightarrow> bool" where
  "hasZero g = list_ex (\<lambda>row. 0 \<in> set row) g"

text \<open>The two states agree on every variable except \<open>grid\<close> and \<open>mergedMap\<close>.\<close>

definition sameButBoard :: "game \<Rightarrow> game \<Rightarrow> bool" where
  "sameButBoard s s' =
     (score s' = score s \<and> bestScore s' = bestScore s \<and> lastGrid s' = lastGrid s
      \<and> lastScore s' = lastScore s \<and> lastAddedPos s' = lastAddedPos s
      \<and> gameOver s' = gameOver s \<and> gameWon s' = gameWon s \<and> message s' = message s)"

text \<open>
  What the loops of the four movement functions maintain, \<open>g0\<close> being the grid before the
  move: the shape of the grid and the sum of its cells, tile values, an untouched grid and
  nothing gained as long as \<open>moved\<close> is false, and an empty cell once it is true.
\<close>

definition lineInv :: "int list list \<Rightarrow> bool \<times> int \<times> game \<Rightarrow> bool" where
  "lineInv g0 = (\<lambda>(moved, totalGained, s).
     wf_grid (grid s)
     \<and> gridSum (grid s) = gridSum g0
     \<and> (tileGrid g0 \<longrightarrow> tileGrid (grid s))
     \<and> (hasZero g0 \<longrightarrow> hasZero (grid s))
     \<and> (\<not> moved \<longrightarrow> grid s = g0 \<and> totalGained = 0)
     \<and> (moved \<longrightarrow> hasZero (grid s)))"

text \<open>
  What a movement function returns on a grid of four rows of four cells: the loop's
  invariant holds of its final variables, and the score is bumped by the total gained.
\<close>

definition coreOutcome :: "game \<Rightarrow> bool \<times> game \<Rightarrow> bool" where
  "coreOutcome s res =
     (\<exists>t s1. lineInv (grid s) (fst res, t, s1) \<and> sameButBoard s s1
        \<and> snd res = (if t > 0 then bumpScore t s1 else s1))"

text \<open>
  The two states agree on every variable except \<open>grid\<close>, \<open>mergedMap\<close>, \<open>score\<close> and
  \<open>bestScore\<close>.
\<close>

definition coreFrame :: "game \<Rightarrow> game \<Rightarrow> bool" where
  "coreFrame s s' =
     (lastGrid s' = lastGrid s \<and> lastScore s' = lastScore s
      \<and> lastAddedPos s' = lastAddedPos s \<and> gameOver s' = gameOver s
      \<and> gameWon s' = gameWon s \<and> message s' = message s)"

text \<open>
  What every reachable state satisfies: the grid and the snapshot are 4 by 4 grids of tile
  values, the two terminal flags are never both set, and a terminal state holds a snapshot.
\<close>

definition gameInv :: "game \<Rightarrow> bool" where
  "gameInv s =
     (wf_grid (grid s) \<and> tileGrid (grid s)
      \<and> (case lastGrid s of None \<Rightarrow> True | Some g \<Rightarrow> wf_grid g \<and> tileGrid g)
      \<and> \<not> (gameWon s \<and> gameOver s)
      \<and> (gameWon s \<or> gameOver s \<longrightarrow> lastGrid s \<noteq> None))"

subsection \<open>Draws and states used as examples\<close>

text \<open>
  The doubles 0 and 1/2, and the double \<open>2573485501354569 / 2 ^ 52\<close> just below 4/7, whose
  product with 14 is rounded up to 8.
\<close>

definition drawZero :: draw where
  "drawZero = \<lparr>mant = 0, expo = 53\<rparr>"

definition drawHalf :: draw where
  "drawHalf = \<lparr>mant = 4503599627370496, expo = 53\<rparr>"

definition drawBelowFourSevenths :: draw where
  "drawBelowFourSevenths = \<lparr>mant = 2573485501354569, expo = 52\<rparr>"

text \<open>A won state: the last move merged two 1024 tiles.\<close>

definition wonState :: game where
  "wonState =
     \<lparr>grid = [[2048, 2, 0, 0], [0, 0, 0, 0], [0, 0, 0, 0], [0, 0, 0, 0]], score = 20000,
      lastGrid = Some [[1024, 1024, 0, 0], [0, 0, 0, 0], [0, 0, 0, 0], [0, 0, 0, 0]],
      lastScore = 17952, lastAddedPos = Some (0, 1), mergedMap = {(0, 0)},
      gameOver = False, gameWon = True, bestScore = 20000, message = YouWin\<rparr>"

text \<open>A full board without equal neighbours that holds a 2048 tile, flags not yet set.\<close>

definition fullState :: game where
  "fullState =
     \<lparr>grid = [[2048, 4, 2, 4], [4, 2, 4, 2], [2, 4, 2, 4], [4, 2, 4, 2]], score = 20000,
      lastGrid = None, lastScore = 0, lastAddedPos = None, mergedMap = {},
      gameOver = False, gameWon = False, bestScore = 20000, message = NoMessage\<rparr>"

text \<open>A state in play whose grid holds the row 2 2 0 0 and three empty rows.\<close>

definition pairState :: game where
  "pairState =
     \<lparr>grid = [[2, 2, 0, 0], [0, 0, 0, 0], [0, 0, 0, 0], [0, 0, 0, 0]], score = 0,
      lastGrid = None, lastScore = 0, lastAddedPos = None, mergedMap = {},
      gameOver = False, gameWon = False, bestScore = 0, message = NoMessage\<rparr>"

section \<open>Properties of the line transform\<close>

lemma padZeros_replicate: "padZeros arr = arr @ replicate (SIZE - length arr) 0"
proof (induction arr rule: padZeros.induct)
  case (1 arr)
  show ?case
  proof (cases "length arr < SIZE")
    case True
    then have "SIZE - length arr = Suc (SIZE - length (arr @ [0]))"
      by simp
    with True 1 show ?thesis
      by (subst padZeros.simps) (simp add: replicate_app_Cons_same)
  next
    case False
    then show ?thesis
      by (subst padZeros.simps) simp
  qed
qed

lemma mergeLoop_spec:
  "length pre = i \<Longrightarrow>
   mergeLoop i (pre @ rest) gain merged =
     (pre @ specMergedLine rest, merged @ specMergedAt i rest, gain + specGained rest)"
proof (induction rest arbitrary: pre i gain merged rule: specMergedLine.induct)
  case (1 x y xs)
  show ?case
  proof (cases "x = y")
    case True
    have step: "mergeLoop i (pre @ x # y # xs) gain merged =
        mergeLoop (i + 1) ((pre @ [2 * x]) @ xs) (gain + 2 * x) (merged @ [i])"
      using True 1(3)
      by (subst mergeLoop.simps) (simp add: spliceOne_def nth_append list_update_append mult.commute)
    show ?thesis
      unfolding step
      using True 1(1) [OF True, of "pre @ [2 * x]" "i + 1" "gain + 2 * x" "merged @ [i]"] 1(3)
      by simp
  next
    case False
    have step: "mergeLoop i (pre @ x # y # xs) gain merged =
        mergeLoop (i + 1) ((pre @ [x]) @ y # xs) gain merged"
      using False 1(3)
      by (subst mergeLoop.simps) (simp add: nth_append)
    show ?thesis
      unfolding step
      using False 1(2) [OF False, of "pre @ [x]" "i + 1" gain merged] 1(3)
      by simp
  qed
next
  case "2_1"
  then show ?case
    by (subst mergeLoop.simps) simp
next
  case "2_2"
  then show ?case
    by (subst mergeLoop.simps) simp
qed

lemma slideCombineRow_spec: "slideCombineRow row = specCompactAndMerge row"
  using mergeLoop_spec [of "[]" 0 "filter (\<lambda>v. v \<noteq> 0) row" 0 "[]"]
  by (simp add: slideCombineRow_def specCompactAndMerge_def padZeros_replicate Let_def)

lemma specMergedLine_length_le: "length (specMergedLine xs) \<le> length xs"
  by (induction xs rule: specMergedLine.induct) auto

lemma specMergedLine_sum: "sum_list (specMergedLine xs) = sum_list xs"
  by (induction xs rule: specMergedLine.induct) auto

lemma specMergedLine_nonzero: "0 \<notin> set xs \<Longrightarrow> 0 \<notin> set (specMergedLine xs)"
  by (induction xs rule: specMergedLine.induct) auto

lemma tileValue_zero: "tileValue 0"
  by (simp add: tileValue_def)

lemma tileValue_2: "tileValue 2"
  unfolding tileValue_def by (rule disjI2, rule exI [of _ 1]) simp

lemma tileValue_4: "tileValue 4"
  unfolding tileValue_def by (rule disjI2, rule exI [of _ 2]) simp

lemma tileValue_double: "tileValue v \<Longrightarrow> tileValue (2 * v)"
  unfolding tileValue_def
proof (elim disjE exE conjE)
  assume "v = 0"
  then show "2 * v = 0 \<or> (\<exists>k\<ge>1. 2 * v = 2 ^ k)" by simp
next
  fix k :: nat
  assume "1 \<le> k" "v = 2 ^ k"
  then have "1 \<le> Suc k \<and> 2 * v = 2 ^ Suc k" by simp
  then show "2 * v = 0 \<or> (\<exists>k\<ge>1. 2 * v = 2 ^ k)" by blast
qed

lemma specMergedLine_tile:
  "\<forall>v \<in> set xs. tileValue v \<Longrightarrow> \<forall>v \<in> set (specMergedLine xs). tileValue v"
  by (induction xs rule: specMergedLine.induct) (auto simp: tileValue_double)

lemma specMerged_same_length:
  "length (specMergedLine xs) = length xs \<Longrightarrow>
   specMergedLine xs = xs \<and> specMergedAt k xs = [] \<and> specGained xs = 0"
proof (induction xs arbitrary: k rule: specMergedLine.induct)
  case (1 x y xs)
  show ?case
  proof (cases "x = y")
    case True
    have "length (specMergedLine xs) \<le> length xs"
      by (rule specMergedLine_length_le)
    with True 1(3) show ?thesis by simp
  next
    case False
    with 1(2) [OF False] 1(3) show ?thesis by simp
  qed
qed simp_all

lemma specMerged_no_adjacentEqual:
  "0 \<notin> set xs \<Longrightarrow> \<not> adjacentEqual xs \<Longrightarrow>
   specMergedLine xs = xs \<and> specMergedAt k xs = [] \<and> specGained xs = 0"
  by (induction xs arbitrary: k rule: specMergedLine.induct) auto

lemma adjacentEqual_append: "adjacentEqual xs \<Longrightarrow> adjacentEqual (xs @ ys)"
  by (induction xs rule: adjacentEqual.induct) auto

lemma newRow_eq:
  "newRow (slideCombineRow l) =
     specMergedLine (filter (\<lambda>v. v \<noteq> 0) l)
       @ replicate (SIZE - length (specMergedLine (filter (\<lambda>v. v \<noteq> 0) l))) 0"
  by (simp add: slideCombineRow_spec specCompactAndMerge_def Let_def)

lemma gained_eq: "gained (slideCombineRow l) = specGained (filter (\<lambda>v. v \<noteq> 0) l)"
  by (simp add: slideCombineRow_spec specCompactAndMerge_def Let_def)

lemma mergedIndices_eq:
  "mergedIndices (slideCombineRow l) = specMergedAt 0 (filter (\<lambda>v. v \<noteq> 0) l)"
  by (simp add: slideCombineRow_spec specCompactAndMerge_def Let_def)

lemma newRow_length: "length l \<le> SIZE \<Longrightarrow> length (newRow (slideCombineRow l)) = SIZE"
proof -
  assume a: "length l \<le> SIZE"
  have "length (specMergedLine (filter (\<lambda>v. v \<noteq> 0) l)) \<le> length (filter (\<lambda>v. v \<noteq> 0) l)"
    by (rule specMergedLine_length_le)
  also have "\<dots> \<le> length l" by simp
  finally show ?thesis using a by (simp add: newRow_eq)
qed

lemma sum_list_filter_nonzero: "sum_list (filter (\<lambda>v. v \<noteq> 0) l) = sum_list (l :: int list)"
  by (induction l) auto

lemma newRow_sum: "sum_list (newRow (slideCombineRow l)) = sum_list l"
  by (simp add: newRow_eq specMergedLine_sum sum_list_filter_nonzero sum_list_replicate)

lemma newRow_tile:
  assumes "\<forall>v \<in> set l. tileValue v"
  shows "\<forall>v \<in> set (newRow (slideCombineRow l)). tileValue v"
proof -
  have "\<forall>v \<in> set (filter (\<lambda>v. v \<noteq> 0) l). tileValue v"
    using assms by simp
  then have "\<forall>v \<in> set (specMergedLine (filter (\<lambda>v. v \<noteq> 0) l)). tileValue v"
    by (rule specMergedLine_tile)
  then show ?thesis
    by (auto simp: newRow_eq tileValue_zero)
qed

lemma filter_nonzero_append_zeros:
  "filter (\<lambda>v. v \<noteq> 0) (xs @ replicate n (0::int)) = filter (\<lambda>v. v \<noteq> 0) xs"
  by (induction n) (simp_all add: replicate_app_Cons_same)

lemma filter_nonzero_id: "0 \<notin> set xs \<Longrightarrow> filter (\<lambda>v. v \<noteq> 0) xs = (xs :: int list)"
  by (induction xs) auto

lemma newRow_compacted:
  "filter (\<lambda>v. v \<noteq> 0) (newRow (slideCombineRow l)) = specMergedLine (filter (\<lambda>v. v \<noteq> 0) l)"
proof -
  have "0 \<notin> set (specMergedLine (filter (\<lambda>v. v \<noteq> 0) l))"
    by (rule specMergedLine_nonzero) simp
  then show ?thesis
    by (simp add: newRow_eq filter_nonzero_append_zeros filter_nonzero_id)
qed

lemma newRow_same:
  assumes "newRow (slideCombineRow l) = l"
  shows "gained (slideCombineRow l) = 0 \<and> mergedIndices (slideCombineRow l) = []"
proof -
  have "specMergedLine (filter (\<lambda>v. v \<noteq> 0) l) = filter (\<lambda>v. v \<noteq> 0) l"
    using newRow_compacted [of l] assms by simp
  then have "length (specMergedLine (filter (\<lambda>v. v \<noteq> 0) l)) = length (filter (\<lambda>v. v \<noteq> 0) l)"
    by simp
  then show ?thesis
    using specMerged_same_length [of "filter (\<lambda>v. v \<noteq> 0) l" 0]
    by (simp add: gained_eq mergedIndices_eq)
qed

lemma newRow_changed_last_zero:
  assumes len: "length l = SIZE" and neq: "newRow (slideCombineRow l) \<noteq> l"
  shows "newRow (slideCombineRow l) ! (SIZE - 1) = 0"
proof -
  let ?c = "filter (\<lambda>v. v \<noteq> 0) l"
  let ?m = "specMergedLine ?c"
  have le1: "length ?m \<le> length ?c" by (rule specMergedLine_length_le)
  have le2: "length ?c \<le> length l" by simp
  have "length ?m < SIZE"
  proof (rule ccontr)
    assume "\<not> length ?m < SIZE"
    with le1 le2 len have m: "length ?m = length ?c" and c: "length ?c = length l"
      by simp_all
    from c have "?c = l"
      by (metis (mono_tags, lifting) filter_True length_filter_less less_irrefl)
    moreover from m have "?m = ?c"
      using specMerged_same_length [of ?c 0] by simp
    ultimately have "newRow (slideCombineRow l) = l"
      using len by (simp add: newRow_eq)
    with neq show False by simp
  qed
  then have "\<not> SIZE - 1 < length ?m" and "SIZE - 1 - length ?m < SIZE - length ?m"
    by arith+
  then show ?thesis
    by (simp only: newRow_eq nth_append if_False nth_replicate)
qed

lemma newRow_changed_zero:
  assumes "length l = SIZE" and "newRow (slideCombineRow l) \<noteq> l"
  shows "0 \<in> set (newRow (slideCombineRow l))"
proof -
  have "SIZE - 1 < length (newRow (slideCombineRow l))"
    using assms(1) by (simp add: newRow_length SIZE_def)
  then have "newRow (slideCombineRow l) ! (SIZE - 1) \<in> set (newRow (slideCombineRow l))"
    by (rule nth_mem)
  then show ?thesis
    using newRow_changed_last_zero [OF assms] by simp
qed

lemma newRow_keeps_zero:
  assumes "length l \<le> SIZE" and "0 \<in> set l"
  shows "0 \<in> set (newRow (slideCombineRow l))"
proof -
  let ?c = "filter (\<lambda>v. v \<noteq> 0) l"
  have "length (specMergedLine ?c) \<le> length ?c"
    by (rule specMergedLine_length_le)
  moreover have "length ?c < length l"
    using assms(2) by (simp add: length_filter_less)
  ultimately have "0 < SIZE - length (specMergedLine ?c)"
    using assms(1) by simp
  then show ?thesis
    by (simp add: newRow_eq)
qed

section \<open>Grids of four rows of four cells\<close>

lemma upt_SIZE: "[0..<SIZE] = [0, 1, 2, 3]"
  by (simp add: SIZE_def upt_rec)

lemma upt_4: "[0..<4] = [0, 1, 2, 3]"
  by (simp add: upt_rec)

lemma less_SIZE: "r < SIZE \<longleftrightarrow> r = 0 \<or> r = 1 \<or> r = 2 \<or> r = 3"
  by (auto simp: SIZE_def)

lemma length_SIZE:
  "length (xs :: 'a list) = SIZE \<longleftrightarrow> (\<exists>a b c d. xs = [a, b, c, d])"
  by (auto simp: SIZE_def eval_nat_numeral length_Suc_conv)

lemma wf_grid_explicit:
  assumes "wf_grid g"
  obtains a0 a1 a2 a3 b0 b1 b2 b3 c0 c1 c2 c3 d0 d1 d2 d3 where
    "g = [[a0, a1, a2, a3], [b0, b1, b2, b3], [c0, c1, c2, c3], [d0, d1, d2, d3]]"
proof -
  from assms obtain ra rb rc rd where g: "g = [ra, rb, rc, rd]"
    unfolding wf_grid_def length_SIZE by blast
  from assms g have "length ra = SIZE" "length rb = SIZE" "length rc = SIZE" "length rd = SIZE"
    by (simp_all add: wf_grid_def)
  then obtain a0 a1 a2 a3 b0 b1 b2 b3 c0 c1 c2 c3 d0 d1 d2 d3 where
    "ra = [a0, a1, a2, a3]" "rb = [b0, b1, b2, b3]" "rc = [c0, c1, c2, c3]" "rd = [d0, d1, d2, d3]"
    unfolding length_SIZE by blast
  with g that show thesis by blast
qed

lemma wf_grid_rows: "wf_grid g \<Longrightarrow> r < SIZE \<Longrightarrow> length (g ! r) = SIZE"
  by (auto simp: wf_grid_def list_all_length)

lemma length_colOf: "length (colOf g c) = SIZE"
  by (simp add: colOf_def)

lemma zero_grid: "wf_grid (replicate SIZE (replicate SIZE 0))" "tileGrid (replicate SIZE (replicate SIZE 0))"
  by (simp_all add: wf_grid_def tileGrid_def tileValue_zero list_all_length)

lemma zero_grid_explicit:
  "replicate SIZE (replicate SIZE 0) = [[0, 0, 0, 0], [0, 0, 0, 0], [0, 0, 0, 0], [0, 0, 0, 0 :: int]]"
  by (simp add: SIZE_def eval_nat_numeral)

lemma row_replace:
  assumes wf: "wf_grid g" and r: "r < SIZE" and len: "length L = SIZE"
    and sum: "sum_list L = sum_list (g ! r)"
    and tile: "(\<forall>v \<in> set (g ! r). tileValue v) \<longrightarrow> (\<forall>v \<in> set L. tileValue v)"
    and chg: "L \<noteq> g ! r \<longrightarrow> 0 \<in> set L"
    and keep: "0 \<in> set (g ! r) \<longrightarrow> 0 \<in> set L"
  shows "wf_grid (g[r := L])"
    and "gridSum (g[r := L]) = gridSum g"
    and "tileGrid g \<longrightarrow> tileGrid (g[r := L])"
    and "hasZero g \<longrightarrow> hasZero (g[r := L])"
    and "L \<noteq> g ! r \<longrightarrow> hasZero (g[r := L])"
    and "L = g ! r \<longrightarrow> g[r := L] = g"
proof -
  from wf obtain a0 a1 a2 a3 b0 b1 b2 b3 c0 c1 c2 c3 d0 d1 d2 d3 where
    g: "g = [[a0, a1, a2, a3], [b0, b1, b2, b3], [c0, c1, c2, c3], [d0, d1, d2, d3]]"
    by (rule wf_grid_explicit)
  from len obtain l0 l1 l2 l3 where L: "L = [l0, l1, l2, l3]"
    unfolding length_SIZE by blast
  from r have rc: "r = 0 \<or> r = 1 \<or> r = 2 \<or> r = 3"
    by (simp add: less_SIZE)
  show "wf_grid (g[r := L])"
    using rc by (auto simp: g L wf_grid_def SIZE_def)
  show "gridSum (g[r := L]) = gridSum g"
    using rc sum by (auto simp: g L gridSum_def)
  show "tileGrid g \<longrightarrow> tileGrid (g[r := L])"
    using rc tile by (auto simp: g L tileGrid_def)
  show "hasZero g \<longrightarrow> hasZero (g[r := L])"
    using rc keep by (elim disjE; simp add: g L hasZero_def; blast)
  show "L \<noteq> g ! r \<longrightarrow> hasZero (g[r := L])"
    using rc chg by (elim disjE; simp add: g L hasZero_def; blast)
  show "L = g ! r \<longrightarrow> g[r := L] = g"
    by auto
qed

lemma setCol_explicit:
  "setCol [[a0, a1, a2, a3], [b0, b1, b2, b3], [c0, c1, c2, c3], [d0, d1, d2, d3]] c [l0, l1, l2, l3] =
     [[a0, a1, a2, a3][c := l0], [b0, b1, b2, b3][c := l1],
      [c0, c1, c2, c3][c := l2], [d0, d1, d2, d3][c := l3]]"
  by (simp add: setCol_def upt_SIZE)

lemma colOf_explicit:
  "colOf [[a0, a1, a2, a3], [b0, b1, b2, b3], [c0, c1, c2, c3], [d0, d1, d2, d3]] c =
     [[a0, a1, a2, a3] ! c, [b0, b1, b2, b3] ! c, [c0, c1, c2, c3] ! c, [d0, d1, d2, d3] ! c]"
  by (simp add: colOf_def upt_SIZE)

lemma col_replace:
  assumes wf: "wf_grid g" and c: "c < SIZE" and len: "length L = SIZE"
    and sum: "sum_list L = sum_list (colOf g c)"
    and tile: "(\<forall>v \<in> set (colOf g c). tileValue v) \<longrightarrow> (\<forall>v \<in> set L. tileValue v)"
    and chg: "L \<noteq> colOf g c \<longrightarrow> 0 \<in> set L"
    and keep: "0 \<in> set (colOf g c) \<longrightarrow> 0 \<in> set L"
  shows "wf_grid (setCol g c L)"
    and "gridSum (setCol g c L) = gridSum g"
    and "tileGrid g \<longrightarrow> tileGrid (setCol g c L)"
    and "hasZero g \<longrightarrow> hasZero (setCol g c L)"
    and "L \<noteq> colOf g c \<longrightarrow> hasZero (setCol g c L)"
    and "L = colOf g c \<longrightarrow> setCol g c L = g"
proof -
  from wf obtain a0 a1 a2 a3 b0 b1 b2 b3 c0 c1 c2 c3 d0 d1 d2 d3 where
    g: "g = [[a0, a1, a2, a3], [b0, b1, b2, b3], [c0, c1, c2, c3], [d0, d1, d2, d3]]"
    by (rule wf_grid_explicit)
  from len obtain l0 l1 l2 l3 where L: "L = [l0, l1, l2, l3]"
    unfolding length_SIZE by blast
  from c have cc: "c = 0 \<or> c = 1 \<or> c = 2 \<or> c = 3"
    by (simp add: less_SIZE)
  show "wf_grid (setCol g c L)"
    using cc by (auto simp: g L setCol_explicit wf_grid_def SIZE_def)
  show "gridSum (setCol g c L) = gridSum g"
    using cc sum by (auto simp: g L gridSum_def setCol_explicit colOf_explicit)
  show "tileGrid g \<longrightarrow> tileGrid (setCol g c L)"
    using cc tile by (auto simp: g L tileGrid_def setCol_explicit colOf_explicit)
  show "hasZero g \<longrightarrow> hasZero (setCol g c L)"
    using cc keep by (elim disjE; simp add: g L hasZero_def setCol_explicit colOf_explicit; blast)
  show "L \<noteq> colOf g c \<longrightarrow> hasZero (setCol g c L)"
    using cc chg by (elim disjE; simp add: g L hasZero_def setCol_explicit colOf_explicit; blast)
  show "L = colOf g c \<longrightarrow> setCol g c L = g"
    using cc by (auto simp: g L setCol_explicit colOf_explicit)
qed

lemma fold_writeCell:
  assumes wf: "wf_grid g" and c: "c < SIZE" and len: "length L = SIZE"
  shows "fold (writeCell c L) [0..<SIZE] (moved, g) = (moved \<or> L \<noteq> colOf g c, setCol g c L)"
proof -
  from wf obtain a0 a1 a2 a3 b0 b1 b2 b3 c0 c1 c2 c3 d0 d1 d2 d3 where
    g: "g = [[a0, a1, a2, a3], [b0, b1, b2, b3], [c0, c1, c2, c3], [d0, d1, d2, d3]]"
    by (rule wf_grid_explicit)
  from len obtain l0 l1 l2 l3 where L: "L = [l0, l1, l2, l3]"
    unfolding length_SIZE by blast
  from c have cc: "c = 0 \<or> c = 1 \<or> c = 2 \<or> c = 3"
    by (simp add: less_SIZE)
  then show ?thesis
    by (auto simp: g L upt_SIZE writeCell_def setCol_explicit colOf_explicit)
qed

lemma cell_write:
  assumes wf: "wf_grid g" and r: "r < SIZE" and c: "c < SIZE"
  shows "wf_grid (g[r := (g ! r)[c := v]])"
    and "gridSum (g[r := (g ! r)[c := v]]) = gridSum g + v - g ! r ! c"
    and "tileGrid g \<longrightarrow> tileValue v \<longrightarrow> tileGrid (g[r := (g ! r)[c := v]])"
    and "(g[r := (g ! r)[c := v]]) ! r ! c = v"
proof -
  from wf obtain a0 a1 a2 a3 b0 b1 b2 b3 c0 c1 c2 c3 d0 d1 d2 d3 where
    g: "g = [[a0, a1, a2, a3], [b0, b1, b2, b3], [c0, c1, c2, c3], [d0, d1, d2, d3]]"
    by (rule wf_grid_explicit)
  from r have rc: "r = 0 \<or> r = 1 \<or> r = 2 \<or> r = 3"
    by (simp add: less_SIZE)
  from c have cc: "c = 0 \<or> c = 1 \<or> c = 2 \<or> c = 3"
    by (simp add: less_SIZE)
  show "wf_grid (g[r := (g ! r)[c := v]])"
    using rc cc by (elim disjE; simp add: g wf_grid_def SIZE_def)
  show "gridSum (g[r := (g ! r)[c := v]]) = gridSum g + v - g ! r ! c"
    using rc cc by (elim disjE; simp add: g gridSum_def)
  show "tileGrid g \<longrightarrow> tileValue v \<longrightarrow> tileGrid (g[r := (g ! r)[c := v]])"
    using rc cc by (elim disjE; simp add: g tileGrid_def)
  show "(g[r := (g ! r)[c := v]]) ! r ! c = v"
    using rc cc by (elim disjE; simp add: g)
qed

lemma hasZero_cells:
  assumes "wf_grid g"
  shows "hasZero g \<longleftrightarrow> (\<exists>r<SIZE. \<exists>c<SIZE. g ! r ! c = 0)"
proof
  assume "hasZero g"
  then obtain row where "row \<in> set g" and "0 \<in> set row"
    by (auto simp: hasZero_def list_ex_iff)
  then obtain r c where "r < length g" "row = g ! r" "c < length row" "row ! c = 0"
    by (metis in_set_conv_nth)
  with assms show "\<exists>r<SIZE. \<exists>c<SIZE. g ! r ! c = 0"
    by (auto simp: wf_grid_def list_all_length)
next
  assume "\<exists>r<SIZE. \<exists>c<SIZE. g ! r ! c = 0"
  then obtain r c where rc: "r < SIZE" "c < SIZE" "g ! r ! c = 0"
    by blast
  with assms have "g ! r \<in> set g" "c < length (g ! r)"
    by (auto simp: wf_grid_def list_all_length)
  with rc(3) have "g ! r \<in> set g \<and> 0 \<in> set (g ! r)"
    by (metis nth_mem)
  then show "hasZero g"
    unfolding hasZero_def list_ex_iff by blast
qed

section \<open>The loops of the movement functions\<close>

lemma fold_preserves:
  "P a \<Longrightarrow> (\<And>x b. x \<in> set xs \<Longrightarrow> P b \<Longrightarrow> P (f x b)) \<Longrightarrow> P (fold f xs a)"
  by (induction xs arbitrary: a) auto

lemma lineInv_start: "wf_grid (grid s) \<Longrightarrow> lineInv (grid s) (False, 0, s\<lparr>mergedMap := {}\<rparr>)"
  by (simp add: lineInv_def)

lemma lineInv_row:
  assumes inv: "lineInv g0 (m, t, s)" and r: "r < SIZE" and len: "length L = SIZE"
    and sum: "sum_list L = sum_list (grid s ! r)"
    and tile: "(\<forall>v \<in> set (grid s ! r). tileValue v) \<longrightarrow> (\<forall>v \<in> set L. tileValue v)"
    and chg: "L \<noteq> grid s ! r \<longrightarrow> 0 \<in> set L"
    and keep: "0 \<in> set (grid s ! r) \<longrightarrow> 0 \<in> set L"
    and same: "L = grid s ! r \<longrightarrow> gain = 0"
  shows "lineInv g0 (m \<or> grid s ! r \<noteq> L, t + gain, s\<lparr>grid := (grid s)[r := L], mergedMap := M\<rparr>)"
proof -
  from inv have wf: "wf_grid (grid s)"
    by (simp add: lineInv_def)
  note rep = row_replace [OF wf r len sum tile chg keep]
  from inv rep same show ?thesis
    unfolding lineInv_def by (simp del: list_update_id) metis
qed

lemma lineInv_col:
  assumes inv: "lineInv g0 (m, t, s)" and c: "c < SIZE" and len: "length L = SIZE"
    and sum: "sum_list L = sum_list (colOf (grid s) c)"
    and tile: "(\<forall>v \<in> set (colOf (grid s) c). tileValue v) \<longrightarrow> (\<forall>v \<in> set L. tileValue v)"
    and chg: "L \<noteq> colOf (grid s) c \<longrightarrow> 0 \<in> set L"
    and keep: "0 \<in> set (colOf (grid s) c) \<longrightarrow> 0 \<in> set L"
    and same: "L = colOf (grid s) c \<longrightarrow> gain = 0"
  shows "lineInv g0 (m \<or> L \<noteq> colOf (grid s) c, t + gain, s\<lparr>grid := setCol (grid s) c L, mergedMap := M\<rparr>)"
proof -
  from inv have wf: "wf_grid (grid s)"
    by (simp add: lineInv_def)
  note rep = col_replace [OF wf c len sum tile chg keep]
  from inv rep same show ?thesis
    unfolding lineInv_def by simp metis
qed

lemma leftRowStep_inv:
  assumes r: "r < SIZE" and inv: "lineInv g0 a"
  shows "lineInv g0 (leftRowStep r a)"
proof -
  obtain m t s where a: "a = (m, t, s)"
    by (cases a) auto
  from inv a have wf: "wf_grid (grid s)"
    by (simp add: lineInv_def)
  let ?l = "grid s ! r"
  let ?L = "newRow (slideCombineRow ?l)"
  have len: "length ?l = SIZE"
    using wf r by (rule wf_grid_rows)
  have "lineInv g0 (m \<or> ?l \<noteq> ?L, t + gained (slideCombineRow ?l),
      s\<lparr>grid := (grid s)[r := ?L],
        mergedMap := mergedMap s \<union> (\<lambda>ci. (int r, int ci)) ` set (mergedIndices (slideCombineRow ?l))\<rparr>)"
  proof (rule lineInv_row [OF inv [unfolded a] r])
    show "length ?L = SIZE"
      using len by (simp add: newRow_length)
    show "sum_list ?L = sum_list ?l"
      by (rule newRow_sum)
    show "(\<forall>v \<in> set ?l. tileValue v) \<longrightarrow> (\<forall>v \<in> set ?L. tileValue v)"
      using newRow_tile by blast
    show "?L \<noteq> ?l \<longrightarrow> 0 \<in> set ?L"
      using len newRow_changed_zero by blast
    show "0 \<in> set ?l \<longrightarrow> 0 \<in> set ?L"
      using len newRow_keeps_zero [of ?l] by simp
    show "?L = ?l \<longrightarrow> gained (slideCombineRow ?l) = 0"
      using newRow_same by blast
  qed
  then show ?thesis
    by (simp add: a leftRowStep_def Let_def)
qed

lemma rightRowStep_inv:
  assumes r: "r < SIZE" and inv: "lineInv g0 a"
  shows "lineInv g0 (rightRowStep r a)"
proof -
  obtain m t s where a: "a = (m, t, s)"
    by (cases a) auto
  from inv a have wf: "wf_grid (grid s)"
    by (simp add: lineInv_def)
  let ?l = "grid s ! r"
  let ?res = "slideCombineRow (rev ?l)"
  let ?L = "rev (newRow ?res)"
  have len: "length (rev ?l) = SIZE"
    using wf_grid_rows [OF wf r] by simp
  have flip: "?L = ?l \<longleftrightarrow> newRow ?res = rev ?l"
    by (rule rev_swap)
  have "lineInv g0 (m \<or> ?l \<noteq> ?L, t + gained ?res,
      s\<lparr>grid := (grid s)[r := ?L],
        mergedMap := mergedMap s \<union> (\<lambda>idx. (int r, int SIZE - 1 - int idx)) ` set (mergedIndices ?res)\<rparr>)"
  proof (rule lineInv_row [OF inv [unfolded a] r])
    show "length ?L = SIZE"
      using len by (simp add: newRow_length)
    show "sum_list ?L = sum_list ?l"
      using newRow_sum [of "rev ?l"] by (simp add: sum_list_rev)
    show "(\<forall>v \<in> set ?l. tileValue v) \<longrightarrow> (\<forall>v \<in> set ?L. tileValue v)"
      using newRow_tile [of "rev ?l"] by simp
    show "?L \<noteq> ?l \<longrightarrow> 0 \<in> set ?L"
      using len newRow_changed_zero [of "rev ?l"] flip by simp
    show "0 \<in> set ?l \<longrightarrow> 0 \<in> set ?L"
      using len newRow_keeps_zero [of "rev ?l"] by simp
    show "?L = ?l \<longrightarrow> gained ?res = 0"
      using newRow_same [of "rev ?l"] flip by simp
  qed
  then show ?thesis
    by (simp add: a rightRowStep_def Let_def)
qed

lemma upColStep_eq:
  assumes wf: "wf_grid (grid s)" and c: "c < SIZE"
  shows "upColStep c (m, t, s) =
    (m \<or> newRow (slideCombineRow (colOf (grid s) c)) \<noteq> colOf (grid s) c,
     t + gained (slideCombineRow (colOf (grid s) c)),
     s\<lparr>grid := setCol (grid s) c (newRow (slideCombineRow (colOf (grid s) c))),
       mergedMap := mergedMap s \<union>
         (\<lambda>ridx. (int ridx, int c)) ` set (mergedIndices (slideCombineRow (colOf (grid s) c)))\<rparr>)"
proof -
  have "length (newRow (slideCombineRow (colOf (grid s) c))) = SIZE"
    by (simp add: newRow_length length_colOf)
  then show ?thesis
    by (simp add: upColStep_def Let_def fold_writeCell [OF wf c])
qed

lemma downColStep_eq:
  assumes wf: "wf_grid (grid s)" and c: "c < SIZE"
  shows "downColStep c (m, t, s) =
    (m \<or> rev (newRow (slideCombineRow (rev (colOf (grid s) c)))) \<noteq> colOf (grid s) c,
     t + gained (slideCombineRow (rev (colOf (grid s) c))),
     s\<lparr>grid := setCol (grid s) c (rev (newRow (slideCombineRow (rev (colOf (grid s) c))))),
       mergedMap := mergedMap s \<union>
         (\<lambda>idx. (int SIZE - 1 - int idx, int c)) `
           set (mergedIndices (slideCombineRow (rev (colOf (grid s) c))))\<rparr>)"
proof -
  have "length (rev (newRow (slideCombineRow (rev (colOf (grid s) c))))) = SIZE"
    by (simp add: newRow_length length_colOf)
  then show ?thesis
    by (simp add: downColStep_def Let_def fold_writeCell [OF wf c])
qed

lemma upColStep_inv:
  assumes c: "c < SIZE" and inv: "lineInv g0 a"
  shows "lineInv g0 (upColStep c a)"
proof -
  obtain m t s where a: "a = (m, t, s)"
    by (cases a) auto
  from inv a have wf: "wf_grid (grid s)"
    by (simp add: lineInv_def)
  let ?l = "colOf (grid s) c"
  let ?L = "newRow (slideCombineRow ?l)"
  have len: "length ?l = SIZE"
    by (rule length_colOf)
  have "lineInv g0 (m \<or> ?L \<noteq> ?l, t + gained (slideCombineRow ?l),
      s\<lparr>grid := setCol (grid s) c ?L,
        mergedMap := mergedMap s \<union> (\<lambda>ridx. (int ridx, int c)) ` set (mergedIndices (slideCombineRow ?l))\<rparr>)"
  proof (rule lineInv_col [OF inv [unfolded a] c])
    show "length ?L = SIZE"
      using len by (simp add: newRow_length)
    show "sum_list ?L = sum_list ?l"
      by (rule newRow_sum)
    show "(\<forall>v \<in> set ?l. tileValue v) \<longrightarrow> (\<forall>v \<in> set ?L. tileValue v)"
      using newRow_tile by blast
    show "?L \<noteq> ?l \<longrightarrow> 0 \<in> set ?L"
      using len newRow_changed_zero by blast
    show "0 \<in> set ?l \<longrightarrow> 0 \<in> set ?L"
      using len newRow_keeps_zero [of ?l] by simp
    show "?L = ?l \<longrightarrow> gained (slideCombineRow ?l) = 0"
      using newRow_same by blast
  qed
  then show ?thesis
    by (simp only: a upColStep_eq [OF wf c])
qed

lemma downColStep_inv:
  assumes c: "c < SIZE" and inv: "lineInv g0 a"
  shows "lineInv g0 (downColStep c a)"
proof -
  obtain m t s where a: "a = (m, t, s)"
    by (cases a) auto
  from inv a have wf: "wf_grid (grid s)"
    by (simp add: lineInv_def)
  let ?l = "colOf (grid s) c"
  let ?res = "slideCombineRow (rev ?l)"
  let ?L = "rev (newRow ?res)"
  have len: "length (rev ?l) = SIZE"
    by (simp add: length_colOf)
  have flip: "?L = ?l \<longleftrightarrow> newRow ?res = rev ?l"
    by (rule rev_swap)
  have "lineInv g0 (m \<or> ?L \<noteq> ?l, t + gained ?res,
      s\<lparr>grid := setCol (grid s) c ?L,
        mergedMap := mergedMap s \<union> (\<lambda>idx. (int SIZE - 1 - int idx, int c)) ` set (mergedIndices ?res)\<rparr>)"
  proof (rule lineInv_col [OF inv [unfolded a] c])
    show "length ?L = SIZE"
      using len by (simp add: newRow_length)
    show "sum_list ?L = sum_list ?l"
      using newRow_sum [of "rev ?l"] by (simp add: sum_list_rev)
    show "(\<forall>v \<in> set ?l. tileValue v) \<longrightarrow> (\<forall>v \<in> set ?L. tileValue v)"
      using newRow_tile [of "rev ?l"] by simp
    show "?L \<noteq> ?l \<longrightarrow> 0 \<in> set ?L"
      using len newRow_changed_zero [of "rev ?l"] flip by simp
    show "0 \<in> set ?l \<longrightarrow> 0 \<in> set ?L"
      using len newRow_keeps_zero [of "rev ?l"] by simp
    show "?L = ?l \<longrightarrow> gained ?res = 0"
      using newRow_same [of "rev ?l"] flip by simp
  qed
  then show ?thesis
    by (simp only: a downColStep_eq [OF wf c])
qed

lemma sameButBoard_refl: "sameButBoard s (s\<lparr>mergedMap := M\<rparr>)"
  by (simp add: sameButBoard_def)

lemma sameButBoard_update:
  "sameButBoard s0 s \<Longrightarrow> sameButBoard s0 (s\<lparr>grid := g, mergedMap := M\<rparr>)"
  by (simp add: sameButBoard_def)

lemma leftRowStep_frame:
  "sameButBoard s0 (snd (snd a)) \<Longrightarrow> sameButBoard s0 (snd (snd (leftRowStep r a)))"
  by (cases a) (simp add: leftRowStep_def Let_def sameButBoard_update)

lemma rightRowStep_frame:
  "sameButBoard s0 (snd (snd a)) \<Longrightarrow> sameButBoard s0 (snd (snd (rightRowStep r a)))"
  by (cases a) (simp add: rightRowStep_def Let_def sameButBoard_update)

lemma upColStep_frame:
  "sameButBoard s0 (snd (snd a)) \<Longrightarrow> sameButBoard s0 (snd (snd (upColStep c a)))"
  by (cases a) (simp add: upColStep_def Let_def sameButBoard_update split: prod.splits)

lemma downColStep_frame:
  "sameButBoard s0 (snd (snd a)) \<Longrightarrow> sameButBoard s0 (snd (snd (downColStep c a)))"
  by (cases a) (simp add: downColStep_def Let_def sameButBoard_update split: prod.splits)

lemma coreOutcome_fold:
  assumes wf: "wf_grid (grid s)"
    and inv: "\<And>r a. r < SIZE \<Longrightarrow> lineInv (grid s) a \<Longrightarrow> lineInv (grid s) (step r a)"
    and frame: "\<And>r a. sameButBoard s (snd (snd a)) \<Longrightarrow> sameButBoard s (snd (snd (step r a)))"
  shows "coreOutcome s
    (case fold step [0..<SIZE] (False, 0, s\<lparr>mergedMap := {}\<rparr>) of
       (moved, totalGained, s1) \<Rightarrow>
         (moved, if totalGained > 0 then bumpScore totalGained s1 else s1))"
proof -
  let ?P = "\<lambda>a. lineInv (grid s) a \<and> sameButBoard s (snd (snd a))"
  have "?P (fold step [0..<SIZE] (False, 0, s\<lparr>mergedMap := {}\<rparr>))"
  proof (rule fold_preserves)
    show "?P (False, 0, s\<lparr>mergedMap := {}\<rparr>)"
      using wf by (simp add: lineInv_start sameButBoard_refl)
  next
    fix x b
    assume "x \<in> set [0..<SIZE]" and "?P b"
    then show "?P (step x b)"
      using inv frame by simp
  qed
  then show ?thesis
    unfolding coreOutcome_def by (cases "fold step [0..<SIZE] (False, 0, s\<lparr>mergedMap := {}\<rparr>)") auto
qed

lemma moveLeftCore_outcome: "wf_grid (grid s) \<Longrightarrow> coreOutcome s (moveLeftCore s)"
  unfolding moveLeftCore_def
  by (rule coreOutcome_fold) (simp_all add: leftRowStep_inv leftRowStep_frame)

lemma moveRightCore_outcome: "wf_grid (grid s) \<Longrightarrow> coreOutcome s (moveRightCore s)"
  unfolding moveRightCore_def
  by (rule coreOutcome_fold) (simp_all add: rightRowStep_inv rightRowStep_frame)

lemma moveUpCore_outcome: "wf_grid (grid s) \<Longrightarrow> coreOutcome s (moveUpCore s)"
  unfolding moveUpCore_def
  by (rule coreOutcome_fold) (simp_all add: upColStep_inv upColStep_frame)

lemma moveDownCore_outcome: "wf_grid (grid s) \<Longrightarrow> coreOutcome s (moveDownCore s)"
  unfolding moveDownCore_def
  by (rule coreOutcome_fold) (simp_all add: downColStep_inv downColStep_frame)

lemma coreFrame_fold:
  assumes frame: "\<And>r a. sameButBoard s (snd (snd a)) \<Longrightarrow> sameButBoard s (snd (snd (step r a)))"
  shows "coreFrame s (snd
    (case fold step [0..<SIZE] (False, 0, s\<lparr>mergedMap := {}\<rparr>) of
       (moved, totalGained, s1) \<Rightarrow>
         (moved, if totalGained > 0 then bumpScore totalGained s1 else s1)))"
proof -
  let ?P = "\<lambda>a. sameButBoard s (snd (snd a))"
  have "?P (fold step [0..<SIZE] (False, 0, s\<lparr>mergedMap := {}\<rparr>))"
    by (rule fold_preserves) (simp_all add: sameButBoard_refl frame)
  then show ?thesis
    by (auto simp: coreFrame_def sameButBoard_def bumpScore_def updateScoreDisplay_def
        split: prod.splits)
qed

lemma moveLeftCore_frame: "coreFrame s (snd (moveLeftCore s))"
  unfolding moveLeftCore_def by (rule coreFrame_fold) (rule leftRowStep_frame)

lemma moveRightCore_frame: "coreFrame s (snd (moveRightCore s))"
  unfolding moveRightCore_def by (rule coreFrame_fold) (rule rightRowStep_frame)

lemma moveUpCore_frame: "coreFrame s (snd (moveUpCore s))"
  unfolding moveUpCore_def by (rule coreFrame_fold) (rule upColStep_frame)

lemma moveDownCore_frame: "coreFrame s (snd (moveDownCore s))"
  unfolding moveDownCore_def by (rule coreFrame_fold) (rule downColStep_frame)

lemma coreFrame_refl: "coreFrame s s"
  by (simp add: coreFrame_def)

lemma coreOutcome_idle: "wf_grid (grid s) \<Longrightarrow> coreOutcome s (False, s)"
proof -
  assume wf: "wf_grid (grid s)"
  have "lineInv (grid s) (False, 0, s) \<and> sameButBoard s s \<and> s = (if (0::int) > 0 then bumpScore 0 s else s)"
    using wf by (simp add: lineInv_def sameButBoard_def)
  then show ?thesis
    unfolding coreOutcome_def fst_conv snd_conv by blast
qed

lemma coreOutcome_facts:
  assumes "coreOutcome s (m, s')"
  shows "wf_grid (grid s')"
    and "gridSum (grid s') = gridSum (grid s)"
    and "tileGrid (grid s) \<longrightarrow> tileGrid (grid s')"
    and "m \<longrightarrow> hasZero (grid s')"
    and "\<not> m \<longrightarrow> s' = s\<lparr>mergedMap := mergedMap s'\<rparr>"
proof -
  from assms obtain t s1 where
    inv: "lineInv (grid s) (m, t, s1)" and frame: "sameButBoard s s1"
    and s': "s' = (if t > 0 then bumpScore t s1 else s1)"
    unfolding coreOutcome_def by auto
  have g: "grid s' = grid s1"
    by (simp add: s' bumpScore_def updateScoreDisplay_def)
  from inv show "wf_grid (grid s')" "gridSum (grid s') = gridSum (grid s)"
    "tileGrid (grid s) \<longrightarrow> tileGrid (grid s')" "m \<longrightarrow> hasZero (grid s')"
    by (simp_all add: g lineInv_def)
  show "\<not> m \<longrightarrow> s' = s\<lparr>mergedMap := mergedMap s'\<rparr>"
  proof
    assume "\<not> m"
    with inv have "grid s1 = grid s" and "t = 0"
      by (simp_all add: lineInv_def)
    with frame s' show "s' = s\<lparr>mergedMap := mergedMap s'\<rparr>"
      by (simp add: sameButBoard_def game.equality)
  qed
qed

lemma runCore_cases:
  "runCore direction s =
     (if direction = ''left'' then moveLeftCore s
      else if direction = ''right'' then moveRightCore s
      else if direction = ''up'' then moveUpCore s
      else if direction = ''down'' then moveDownCore s
      else (False, s))"
  by (simp add: runCore_def)

lemma runCore_other:
  "direction \<notin> {''left'', ''right'', ''up'', ''down''} \<Longrightarrow> runCore direction s = (False, s)"
  by (simp add: runCore_cases)

lemma runCore_outcome: "wf_grid (grid s) \<Longrightarrow> coreOutcome s (runCore direction s)"
  by (simp add: runCore_cases moveLeftCore_outcome moveRightCore_outcome moveUpCore_outcome
      moveDownCore_outcome coreOutcome_idle)

lemma runCore_frame: "coreFrame s (snd (runCore direction s))"
  by (simp add: runCore_cases moveLeftCore_frame moveRightCore_frame moveUpCore_frame
      moveDownCore_frame coreFrame_refl)

lemma runCore_facts:
  assumes wf: "wf_grid (grid s)"
  shows "wf_grid (grid (snd (runCore direction s)))"
    and "gridSum (grid (snd (runCore direction s))) = gridSum (grid s)"
    and "tileGrid (grid s) \<longrightarrow> tileGrid (grid (snd (runCore direction s)))"
    and "fst (runCore direction s) \<longrightarrow> hasZero (grid (snd (runCore direction s)))"
    and "\<not> fst (runCore direction s) \<longrightarrow>
           snd (runCore direction s) = s\<lparr>mergedMap := mergedMap (snd (runCore direction s))\<rparr>"
proof -
  have "coreOutcome s (fst (runCore direction s), snd (runCore direction s))"
    using runCore_outcome [OF wf, of direction] by simp
  from coreOutcome_facts [OF this]
  show "wf_grid (grid (snd (runCore direction s)))"
    and "gridSum (grid (snd (runCore direction s))) = gridSum (grid s)"
    and "tileGrid (grid s) \<longrightarrow> tileGrid (grid (snd (runCore direction s)))"
    and "fst (runCore direction s) \<longrightarrow> hasZero (grid (snd (runCore direction s)))"
    and "\<not> fst (runCore direction s) \<longrightarrow>
           snd (runCore direction s) = s\<lparr>mergedMap := mergedMap (snd (runCore direction s))\<rparr>"
    by blast+
qed

lemma runCore_flags:
  "gameOver (snd (runCore direction s)) = gameOver s"
  "gameWon (snd (runCore direction s)) = gameWon s"
  "lastGrid (snd (runCore direction s)) = lastGrid s"
  "lastScore (snd (runCore direction s)) = lastScore s"
  using runCore_frame [of s direction] by (simp_all add: coreFrame_def)

section \<open>Empty cells and the random tile\<close>

lemma set_emptyCells:
  "set (emptyCells g) = {(r, c). r < SIZE \<and> c < SIZE \<and> g ! r ! c = 0}"
  by (auto simp: emptyCells_def split: if_splits)

lemma concat_singletons:
  "concat (map (\<lambda>c. if P c then [f c] else []) cs) = map f (filter P cs)"
  by (induction cs) auto

lemma distinct_emptyCells: "distinct (emptyCells g)"
proof -
  have "distinct (concat (map (\<lambda>r. map (Pair r) (filter (\<lambda>c. g ! r ! c = 0) [0..<SIZE])) rs))"
    if "distinct rs" for rs :: "nat list"
    using that by (induction rs) (auto simp: distinct_map inj_on_def)
  then show ?thesis
    by (simp add: emptyCells_def concat_singletons)
qed

lemma hasZero_emptyCells:
  assumes "wf_grid g"
  shows "hasZero g \<longleftrightarrow> emptyCells g \<noteq> []"
proof -
  have "emptyCells g \<noteq> [] \<longleftrightarrow> set (emptyCells g) \<noteq> {}"
    by simp
  also have "\<dots> \<longleftrightarrow> (\<exists>r<SIZE. \<exists>c<SIZE. g ! r ! c = 0)"
    unfolding set_emptyCells by auto
  finally show ?thesis
    using hasZero_cells [OF assms] by simp
qed

lemma emptyCells_nth:
  assumes "k < length (emptyCells g)"
  shows "fst (emptyCells g ! k) < SIZE \<and> snd (emptyCells g ! k) < SIZE
    \<and> g ! fst (emptyCells g ! k) ! snd (emptyCells g ! k) = 0"
proof -
  from assms have "emptyCells g ! k \<in> set (emptyCells g)"
    by (rule nth_mem)
  then show ?thesis
    unfolding set_emptyCells by (auto simp: case_prod_beta)
qed

lemma bitLength_bounds: "0 < p \<Longrightarrow> 2 ^ (bitLength p - 1) \<le> p \<and> p < 2 ^ bitLength p"
proof (induction p rule: bitLength.induct)
  case (1 n)
  show ?case
  proof (cases "n div 2 = 0")
    case True
    with 1(2) have "n = 1"
      by (simp add: div_eq_0_iff)
    then show ?thesis
      by (simp add: bitLength.simps [of "Suc 0"] bitLength.simps [of 0])
  next
    case False
    with 1 have ih: "2 ^ (bitLength (n div 2) - 1) \<le> n div 2" "n div 2 < 2 ^ bitLength (n div 2)"
      by simp_all
    have pos: "0 < bitLength (n div 2)"
      using False by (simp add: bitLength.simps [of "n div 2"])
    have b: "bitLength n = Suc (bitLength (n div 2))"
      using 1(2) by (simp add: bitLength.simps [of n])
    have "2 ^ (bitLength n - 1) = 2 * 2 ^ (bitLength (n div 2) - 1)"
      using pos b by (cases "bitLength (n div 2)") simp_all
    also have "\<dots> \<le> 2 * (n div 2)"
      using ih(1) by simp
    also have "\<dots> \<le> n"
      by simp
    finally have lo: "2 ^ (bitLength n - 1) \<le> n" .
    have "n < 2 * (n div 2) + 2"
      by linarith
    also have "\<dots> \<le> 2 * 2 ^ bitLength (n div 2)"
      using ih(2) by simp
    finally have "n < 2 ^ bitLength n"
      by (simp add: b)
    with lo show ?thesis by simp
  qed
qed

text \<open>Rounding to a multiple of \<open>2 ^ sh\<close>: at most half a unit up, never below the multiple under p.\<close>

lemma round_bounds:
  fixes p sh :: nat
  assumes "0 < sh"
  defines "V \<equiv> (if p mod 2 ^ sh > 2 ^ (sh - 1) \<or> (p mod 2 ^ sh = 2 ^ (sh - 1) \<and> odd (p div 2 ^ sh))
                 then p div 2 ^ sh + 1 else p div 2 ^ sh) * 2 ^ sh"
  shows "p div 2 ^ sh * 2 ^ sh \<le> V" and "V \<le> p + 2 ^ (sh - 1)"
proof -
  show "p div 2 ^ sh * 2 ^ sh \<le> V"
    by (simp add: V_def)
  have two: "(2::nat) ^ sh = 2 * 2 ^ (sh - 1)"
    using assms(1) by (cases sh) simp_all
  have p: "p = p div 2 ^ sh * 2 ^ sh + p mod 2 ^ sh"
    by (rule div_mult_mod_eq [symmetric])
  show "V \<le> p + 2 ^ (sh - 1)"
  proof (cases "p mod 2 ^ sh > 2 ^ (sh - 1) \<or> (p mod 2 ^ sh = 2 ^ (sh - 1) \<and> odd (p div 2 ^ sh))")
    case True
    then have ge: "2 ^ (sh - 1) \<le> p mod 2 ^ sh"
      by auto
    from True have "V = p div 2 ^ sh * 2 ^ sh + 2 ^ sh"
      by (simp add: V_def)
    also have "\<dots> = p div 2 ^ sh * 2 ^ sh + 2 ^ (sh - 1) + 2 ^ (sh - 1)"
      using two by simp
    also have "\<dots> \<le> p div 2 ^ sh * 2 ^ sh + p mod 2 ^ sh + 2 ^ (sh - 1)"
      using ge by simp
    finally show ?thesis
      by (simp only: div_mult_mod_eq)
  next
    case False
    then have "V = p div 2 ^ sh * 2 ^ sh"
      by (simp add: V_def)
    then have "V \<le> p div 2 ^ sh * 2 ^ sh + p mod 2 ^ sh + 2 ^ (sh - 1)"
      by simp
    then show ?thesis
      by (simp only: div_mult_mod_eq)
  qed
qed

lemma roundedProduct_exact:
  "bitLength (mant d * n) \<le> 53 \<Longrightarrow> roundedProduct d n = mant d * n"
  by (simp add: roundedProduct_def Let_def)

lemma roundedProduct_rounded:
  assumes "53 < bitLength (mant d * n)"
  shows "mant d * n div 2 ^ (bitLength (mant d * n) - 53) * 2 ^ (bitLength (mant d * n) - 53)
           \<le> roundedProduct d n"
    and "roundedProduct d n \<le> mant d * n + 2 ^ (bitLength (mant d * n) - 54)"
proof -
  let ?p = "mant d * n"
  let ?sh = "bitLength ?p - 53"
  have sh: "0 < ?sh" and sh1: "?sh - 1 = bitLength ?p - 54"
    using assms by simp_all
  have V: "roundedProduct d n =
      (if ?p mod 2 ^ ?sh > 2 ^ (?sh - 1) \<or> (?p mod 2 ^ ?sh = 2 ^ (?sh - 1) \<and> odd (?p div 2 ^ ?sh))
       then ?p div 2 ^ ?sh + 1 else ?p div 2 ^ ?sh) * 2 ^ ?sh"
    using assms by (simp add: roundedProduct_def Let_def)
  show "?p div 2 ^ ?sh * 2 ^ ?sh \<le> roundedProduct d n"
    unfolding V by (rule round_bounds(1) [OF sh])
  show "roundedProduct d n \<le> ?p + 2 ^ (bitLength ?p - 54)"
    unfolding V using round_bounds(2) [OF sh, of ?p] by (simp only: sh1)
qed

lemma product_bits:
  assumes "53 < bitLength (mant d * n)"
  shows "0 < mant d * n" and "2 ^ (bitLength (mant d * n) - 1) \<le> mant d * n"
proof -
  show pos: "0 < mant d * n"
    using assms by (cases "mant d * n = 0") (simp_all add: bitLength.simps [of 0])
  show "2 ^ (bitLength (mant d * n) - 1) \<le> mant d * n"
    using bitLength_bounds [OF pos] by simp
qed

lemma randomIndex_less:
  assumes d: "unitDraw d" and n: "0 < n"
  shows "randomIndex d n < n"
proof -
  let ?p = "mant d * n"
  let ?b = "bitLength ?p"
  from d have m53: "mant d < 2 ^ 53" and me: "mant d < 2 ^ expo d"
    by (simp_all add: unitDraw_def)
  have "roundedProduct d n < n * 2 ^ expo d"
  proof (cases "?b \<le> 53")
    case True
    have "?p < 2 ^ expo d * n"
      using me n by simp
    then show ?thesis
      by (simp add: roundedProduct_exact [OF True] mult.commute)
  next
    case False
    then have big: "53 < ?b"
      by simp
    have "53 + (?b - 54) = ?b - 1"
      using big by simp
    then have "2 ^ 53 * 2 ^ (?b - 54) = (2::nat) ^ (?b - 1)"
      by (simp only: power_add [symmetric])
    also have "\<dots> \<le> ?p"
      by (rule product_bits(2) [OF big])
    also have "\<dots> < 2 ^ 53 * n"
      using m53 n by simp
    finally have half: "2 ^ (?b - 54) < n"
      by simp
    have "mant d + 1 \<le> 2 ^ expo d"
      using me by simp
    then have "(mant d + 1) * n \<le> 2 ^ expo d * n"
      by (rule mult_le_mono1)
    then have room: "?p + n \<le> n * 2 ^ expo d"
      by (simp add: algebra_simps)
    have "roundedProduct d n \<le> ?p + 2 ^ (?b - 54)"
      by (rule roundedProduct_rounded(2) [OF big])
    also have "\<dots> < ?p + n"
      using half by simp
    finally show ?thesis
      using room by simp
  qed
  then show ?thesis
    unfolding randomIndex_def by (rule less_mult_imp_div_less)
qed

lemma shift_small:
  assumes d: "unitDraw d" and n: "n \<le> 16" and big: "53 < bitLength (mant d * n)"
  shows "bitLength (mant d * n) \<le> expo d + 4"
proof -
  let ?p = "mant d * n"
  from d have me: "mant d < 2 ^ expo d"
    by (simp add: unitDraw_def)
  have npos: "0 < n"
    using product_bits(1) [OF big] by simp
  have "2 ^ (bitLength ?p - 1) \<le> ?p"
    by (rule product_bits(2) [OF big])
  also have "\<dots> < 2 ^ expo d * n"
    using me npos by simp
  also have "\<dots> \<le> 2 ^ expo d * 2 ^ 4"
    using n by simp
  also have "\<dots> = (2::nat) ^ (expo d + 4)"
    by (simp add: power_add)
  finally have "bitLength ?p - 1 < expo d + 4"
    by (simp only: power_strict_increasing_iff rel_simps)
  then show ?thesis
    by simp
qed

lemma randomIndex_floor:
  assumes d: "unitDraw d" and n: "n \<le> 16"
  shows "mant d * n div 2 ^ expo d \<le> randomIndex d n"
proof (cases "bitLength (mant d * n) \<le> 53")
  case True
  then show ?thesis
    by (simp add: randomIndex_def roundedProduct_exact)
next
  case False
  then have big: "53 < bitLength (mant d * n)"
    by simp
  let ?p = "mant d * n"
  let ?e = "expo d"
  let ?sh = "bitLength ?p - 53"
  have she: "?sh \<le> ?e"
    using shift_small [OF d n big] by simp
  then have split: "(2::nat) ^ ?e = 2 ^ (?e - ?sh) * 2 ^ ?sh"
    by (simp add: power_add [symmetric])
  have "?p div 2 ^ ?e * 2 ^ (?e - ?sh) * 2 ^ ?sh = ?p div 2 ^ ?e * 2 ^ ?e"
    by (simp add: split mult.assoc)
  also have "\<dots> \<le> ?p"
    by simp
  finally have "?p div 2 ^ ?e * 2 ^ (?e - ?sh) \<le> ?p div 2 ^ ?sh"
    by (simp add: less_eq_div_iff_mult_less_eq)
  then have "?p div 2 ^ ?e * 2 ^ (?e - ?sh) * 2 ^ ?sh \<le> ?p div 2 ^ ?sh * 2 ^ ?sh"
    by (rule mult_le_mono1)
  also have "\<dots> \<le> roundedProduct d n"
    by (rule roundedProduct_rounded(1) [OF big])
  finally have "?p div 2 ^ ?e * 2 ^ ?e \<le> roundedProduct d n"
    by (simp add: split mult.assoc)
  then have "?p div 2 ^ ?e * 2 ^ ?e div 2 ^ ?e \<le> roundedProduct d n div 2 ^ ?e"
    by (rule div_le_mono)
  then show ?thesis
    by (simp add: randomIndex_def)
qed

lemma randomIndex_above:
  assumes d: "unitDraw d" and n: "n \<le> 16"
  shows "drawValue d * real n < real (randomIndex d n) + 1"
proof -
  let ?p = "mant d * n"
  let ?e = "expo d"
  have "?p < (?p div 2 ^ ?e + 1) * 2 ^ ?e"
    using dividend_less_div_times [of "2 ^ ?e" ?p] by (simp add: algebra_simps)
  also have "\<dots> \<le> (randomIndex d n + 1) * 2 ^ ?e"
    using randomIndex_floor [OF d n] by simp
  finally have "real ?p < real ((randomIndex d n + 1) * 2 ^ ?e)"
    by (simp only: of_nat_less_iff)
  then have "real ?p / 2 ^ ?e < real (randomIndex d n) + 1"
    by (simp add: pos_divide_less_eq algebra_simps)
  then show ?thesis
    by (simp add: drawValue_def)
qed

lemma randomIndex_below:
  assumes d: "unitDraw d" and n: "n \<le> 16"
  shows "real (randomIndex d n) \<le> drawValue d * real n + 1 / 2 ^ 50"
proof -
  let ?p = "mant d * n"
  let ?e = "expo d"
  have k: "randomIndex d n * 2 ^ ?e \<le> roundedProduct d n"
    by (simp add: randomIndex_def)
  have "roundedProduct d n * 2 ^ 50 \<le> ?p * 2 ^ 50 + 2 ^ ?e"
  proof (cases "bitLength ?p \<le> 53")
    case True
    then show ?thesis
      by (simp add: roundedProduct_exact)
  next
    case False
    then have big: "53 < bitLength ?p"
      by simp
    have "bitLength ?p - 54 + 50 \<le> ?e"
      using shift_small [OF d n big] big by simp
    then have "(2::nat) ^ (bitLength ?p - 54 + 50) \<le> 2 ^ ?e"
      by (rule power_increasing) simp
    then have h: "(2::nat) ^ (bitLength ?p - 54) * 2 ^ 50 \<le> 2 ^ ?e"
      by (simp only: power_add)
    have "roundedProduct d n * 2 ^ 50 \<le> (?p + 2 ^ (bitLength ?p - 54)) * 2 ^ 50"
      using roundedProduct_rounded(2) [OF big] by (rule mult_le_mono1)
    also have "\<dots> = ?p * 2 ^ 50 + 2 ^ (bitLength ?p - 54) * 2 ^ 50"
      by (rule add_mult_distrib)
    also have "\<dots> \<le> ?p * 2 ^ 50 + 2 ^ ?e"
      using h by simp
    finally show ?thesis .
  qed
  with k have "randomIndex d n * 2 ^ ?e * 2 ^ 50 \<le> ?p * 2 ^ 50 + 2 ^ ?e"
    by (meson le_trans mult_le_mono1)
  then have "real (randomIndex d n * 2 ^ ?e * 2 ^ 50) \<le> real (?p * 2 ^ 50 + 2 ^ ?e)"
    by (simp only: of_nat_le_iff)
  then have "real (randomIndex d n) * (2 ^ ?e * 2 ^ 50) \<le> real ?p * 2 ^ 50 + 2 ^ ?e"
    by (simp add: mult.assoc)
  then have "real (randomIndex d n) \<le> (real ?p * 2 ^ 50 + 2 ^ ?e) / (2 ^ ?e * 2 ^ 50)"
    by (simp add: pos_le_divide_eq)
  also have "\<dots> = real ?p / 2 ^ ?e + 1 / 2 ^ 50"
    by (simp add: add_divide_distrib)
  finally show ?thesis
    by (simp add: drawValue_def)
qed

lemma pointNine_above: "9 / 10 < pointNine"
  by (simp add: pointNine_def)

lemma below_pointNine:
  assumes d: "unitDraw d"
  shows "drawValue d < pointNine \<longleftrightarrow> drawValue d < 9 / 10"
proof
  assume "drawValue d < 9 / 10"
  then show "drawValue d < pointNine"
    using pointNine_above by simp
next
  assume lt: "drawValue d < pointNine"
  let ?m = "mant d"
  let ?e = "expo d"
  from d have m53: "?m < 2 ^ 53"
    by (simp add: unitDraw_def)
  from lt have "real ?m * 2 ^ 53 < 8106479329266893 * 2 ^ ?e"
    by (simp add: drawValue_def pointNine_def field_simps)
  then have "real (?m * 2 ^ 53) < real (8106479329266893 * 2 ^ ?e)"
    by simp
  then have cross: "?m * 2 ^ 53 < 8106479329266893 * 2 ^ ?e"
    by (simp only: of_nat_less_iff)
  have "10 * ?m < 9 * 2 ^ ?e"
  proof (cases "?e \<le> 53")
    case True
    have eq1: "?m * 2 ^ 53 = ?m * 2 ^ (53 - ?e) * 2 ^ ?e"
      using True by (simp add: mult.assoc power_add [symmetric])
    have eq2: "9 * (2::nat) ^ 53 = 9 * 2 ^ ?e * 2 ^ (53 - ?e)"
      using True by (simp add: mult.assoc power_add [symmetric])
    from cross have "?m * 2 ^ (53 - ?e) * 2 ^ ?e < 8106479329266893 * 2 ^ ?e"
      by (simp only: eq1)
    then have "?m * 2 ^ (53 - ?e) < 8106479329266893"
      by simp
    then have "10 * (?m * 2 ^ (53 - ?e)) < 9 * 2 ^ 53"
      by simp
    then have "10 * ?m * 2 ^ (53 - ?e) < 9 * 2 ^ ?e * 2 ^ (53 - ?e)"
      by (simp only: eq2 mult.assoc)
    then show ?thesis
      by simp
  next
    case False
    then have "(2::nat) ^ 54 \<le> 2 ^ ?e"
      by (intro power_increasing) simp_all
    with m53 show ?thesis
      by simp
  qed
  then have "real (10 * ?m) < real (9 * 2 ^ ?e)"
    by (simp only: of_nat_less_iff)
  then show "drawValue d < 9 / 10"
    by (simp add: drawValue_def field_simps)
qed

lemma length_concat_le:
  "(\<And>x. x \<in> set xs \<Longrightarrow> length (f x) \<le> k) \<Longrightarrow> length (concat (map f xs)) \<le> k * length xs"
  by (induction xs) (auto simp: add_mono)

lemma length_emptyCells: "length (emptyCells g) \<le> 16"
proof -
  have row: "length (concat (map (\<lambda>c. if g ! r ! c = 0 then [(r, c)] else []) [0..<SIZE])) \<le> 4" for r
    using length_concat_le [of "[0..<SIZE]" "\<lambda>c. if g ! r ! c = 0 then [(r, c)] else []" 1]
    by (simp add: SIZE_def)
  have "length (emptyCells g) \<le> 4 * length [0..<SIZE]"
    unfolding emptyCells_def by (rule length_concat_le) (rule row)
  then show ?thesis
    by (simp add: SIZE_def)
qed

lemma index_unique:
  fixes x :: real and k j :: nat
  assumes "real k \<le> x + 1 / 2 ^ 50" and "x < real k + 1"
    and "real j \<le> x" and "x + 1 / 2 ^ 50 < real j + 1"
  shows "k = j"
proof -
  from assms(1,4) have "real k < real j + 1"
    by linarith
  moreover from assms(2,3) have "real j < real k + 1"
    by linarith
  ultimately show ?thesis
    by linarith
qed

lemma addRandomTile_none:
  "emptyCells (grid s) = [] \<Longrightarrow> addRandomTile u1 u2 s = (None, s\<lparr>lastAddedPos := None\<rparr>)"
  by (simp add: addRandomTile_def)

lemma addRandomTile_some:
  "emptyCells (grid s) \<noteq> [] \<Longrightarrow>
   addRandomTile u1 u2 s =
     (Some (emptyCells (grid s) ! randomIndex u1 (length (emptyCells (grid s)))),
      s\<lparr>grid := (grid s)
           [fst (emptyCells (grid s) ! randomIndex u1 (length (emptyCells (grid s)))) :=
              (grid s ! fst (emptyCells (grid s) ! randomIndex u1 (length (emptyCells (grid s)))))
                [snd (emptyCells (grid s) ! randomIndex u1 (length (emptyCells (grid s)))) :=
                   (if drawValue u2 < pointNine then 2 else 4)]],
        lastAddedPos :=
          Some (emptyCells (grid s) ! randomIndex u1 (length (emptyCells (grid s))))\<rparr>)"
  by (simp add: addRandomTile_def Let_def)

lemma addRandomTile_effect:
  assumes wf: "wf_grid (grid s)" and draw: "unitDraw u1" and ne: "emptyCells (grid s) \<noteq> []"
  shows "\<exists>r c. r < SIZE \<and> c < SIZE \<and> grid s ! r ! c = 0
    \<and> addRandomTile u1 u2 s =
        (Some (r, c),
         s\<lparr>grid := (grid s)[r := (grid s ! r)[c := (if drawValue u2 < pointNine then 2 else 4)]],
           lastAddedPos := Some (r, c)\<rparr>)"
proof -
  let ?e = "emptyCells (grid s)"
  let ?k = "randomIndex u1 (length ?e)"
  from ne draw have "?k < length ?e"
    by (simp add: randomIndex_less)
  then have "fst (?e ! ?k) < SIZE \<and> snd (?e ! ?k) < SIZE
      \<and> grid s ! fst (?e ! ?k) ! snd (?e ! ?k) = 0"
    by (rule emptyCells_nth)
  moreover have "addRandomTile u1 u2 s =
        (Some (fst (?e ! ?k), snd (?e ! ?k)),
         s\<lparr>grid := (grid s)[fst (?e ! ?k) :=
              (grid s ! fst (?e ! ?k))[snd (?e ! ?k) := (if drawValue u2 < pointNine then 2 else 4)]],
           lastAddedPos := Some (fst (?e ! ?k), snd (?e ! ?k))\<rparr>)"
    using ne by (simp add: addRandomTile_some)
  ultimately show ?thesis
    by blast
qed

lemma addRandomTile_frame:
  "score (snd (addRandomTile u1 u2 s)) = score s"
  "bestScore (snd (addRandomTile u1 u2 s)) = bestScore s"
  "lastGrid (snd (addRandomTile u1 u2 s)) = lastGrid s"
  "lastScore (snd (addRandomTile u1 u2 s)) = lastScore s"
  "gameOver (snd (addRandomTile u1 u2 s)) = gameOver s"
  "gameWon (snd (addRandomTile u1 u2 s)) = gameWon s"
  "lastAddedPos (snd (addRandomTile u1 u2 s)) = fst (addRandomTile u1 u2 s)"
  by (simp_all add: addRandomTile_def Let_def)

lemma addRandomTile_grid:
  assumes wf: "wf_grid (grid s)" and draw: "unitDraw u1"
  shows "wf_grid (grid (snd (addRandomTile u1 u2 s)))"
    and "tileGrid (grid s) \<longrightarrow> tileGrid (grid (snd (addRandomTile u1 u2 s)))"
proof -
  let ?e = "emptyCells (grid s)"
  let ?k = "randomIndex u1 (length ?e)"
  let ?v = "if drawValue u2 < pointNine then 2 else 4 :: int"
  have v: "tileValue ?v"
    by (simp add: tileValue_2 tileValue_4)
  show "wf_grid (grid (snd (addRandomTile u1 u2 s)))"
  proof (cases "?e = []")
    case True
    with wf show ?thesis by (simp add: addRandomTile_none)
  next
    case False
    then have "?k < length ?e"
      using draw by (simp add: randomIndex_less)
    then have "fst (?e ! ?k) < SIZE" "snd (?e ! ?k) < SIZE"
      using emptyCells_nth [of ?k "grid s"] by simp_all
    from cell_write(1) [OF wf this] False show ?thesis
      by (simp add: addRandomTile_some)
  qed
  show "tileGrid (grid s) \<longrightarrow> tileGrid (grid (snd (addRandomTile u1 u2 s)))"
  proof (cases "?e = []")
    case True
    then show ?thesis by (simp add: addRandomTile_none)
  next
    case False
    then have "?k < length ?e"
      using draw by (simp add: randomIndex_less)
    then have "fst (?e ! ?k) < SIZE" "snd (?e ! ?k) < SIZE"
      using emptyCells_nth [of ?k "grid s"] by simp_all
    from cell_write(3) [OF wf this, of ?v] v False show ?thesis
      by (simp add: addRandomTile_some)
  qed
qed

section \<open>Moves, undo and the terminal flags\<close>

lemma copyGrid_id: "copyGrid g = g"
  by (simp add: copyGrid_def)

lemma render_frame:
  "grid (render s) = grid s" "score (render s) = score s" "lastGrid (render s) = lastGrid s"
  "lastScore (render s) = lastScore s" "gameOver (render s) = gameOver s"
  "gameWon (render s) = gameWon s" "lastAddedPos (render s) = lastAddedPos s"
  by (simp_all add: render_def updateScoreDisplay_def)

lemma updateScoreDisplay_frame:
  "grid (updateScoreDisplay s) = grid s" "score (updateScoreDisplay s) = score s"
  "lastGrid (updateScoreDisplay s) = lastGrid s" "lastScore (updateScoreDisplay s) = lastScore s"
  "gameOver (updateScoreDisplay s) = gameOver s" "gameWon (updateScoreDisplay s) = gameWon s"
  "lastAddedPos (updateScoreDisplay s) = lastAddedPos s"
  by (simp_all add: updateScoreDisplay_def)

lemma checkGameState_frame:
  "grid (checkGameState s) = grid s" "score (checkGameState s) = score s"
  "lastGrid (checkGameState s) = lastGrid s" "lastScore (checkGameState s) = lastScore s"
  "lastAddedPos (checkGameState s) = lastAddedPos s"
  by (simp_all add: checkGameState_def)

lemma checkGameState_flags:
  assumes "\<not> gameWon s" and "\<not> gameOver s"
  shows "\<not> (gameWon (checkGameState s) \<and> gameOver (checkGameState s))"
  using assms by (simp add: checkGameState_def)

lemma hasMoves_iff:
  "hasMoves g \<longleftrightarrow>
     (\<exists>r<SIZE. \<exists>c<SIZE. g ! r ! c = 0
        \<or> (c + 1 < SIZE \<and> g ! r ! c = g ! r ! (c + 1))
        \<or> (r + 1 < SIZE \<and> g ! r ! c = g ! (r + 1) ! c))"
  by (simp add: hasMoves_def list_ex_iff less_diff_conv Bex_def)

lemma handleMove_rejected: "gameOver s \<or> gameWon s \<Longrightarrow> handleMove direction u1 u2 s = s"
  by (simp add: handleMove_def)

lemma fold_handleMove_rejected:
  "gameOver s \<or> gameWon s \<Longrightarrow> fold (\<lambda>(d, a, b). handleMove d a b) attempts s = s"
  by (induction attempts) (auto simp: handleMove_rejected)

lemma handleMove_unchanged:
  "\<not> (gameOver s \<or> gameWon s) \<Longrightarrow> \<not> fst (runCore direction s) \<Longrightarrow>
   handleMove direction u1 u2 s = (snd (runCore direction s))\<lparr>mergedMap := {}, lastAddedPos := None\<rparr>"
  by (cases "runCore direction s") (simp add: handleMove_def Let_def)

lemma handleMove_changed:
  "\<not> (gameOver s \<or> gameWon s) \<Longrightarrow> fst (runCore direction s) \<Longrightarrow>
   handleMove direction u1 u2 s =
     checkGameState (render (snd (addRandomTile u1 u2
       ((snd (runCore direction s))\<lparr>lastGrid := Some (copyGrid (grid s)), lastScore := score s\<rparr>))))"
  by (cases "runCore direction s") (simp add: handleMove_def Let_def)

lemma handleMove_idle:
  assumes wf: "wf_grid (grid s)" and "\<not> changed direction s"
  shows "handleMove direction u1 u2 s =
    (if gameOver s \<or> gameWon s then s else s\<lparr>mergedMap := {}, lastAddedPos := None\<rparr>)"
proof (cases "gameOver s \<or> gameWon s")
  case True
  then show ?thesis by (simp add: handleMove_rejected)
next
  case False
  with assms(2) have m: "\<not> fst (runCore direction s)"
    by (simp add: changed_def)
  define M where "M = mergedMap (snd (runCore direction s))"
  have e: "snd (runCore direction s) = s\<lparr>mergedMap := M\<rparr>"
    unfolding M_def using runCore_facts(5) [OF wf, of direction] m by blast
  show ?thesis
    using False unfolding handleMove_unchanged [OF False m] e by simp
qed

lemma handleMove_snapshot:
  assumes "changed direction s"
  shows "lastGrid (handleMove direction u1 u2 s) = Some (grid s)"
    and "lastScore (handleMove direction u1 u2 s) = score s"
  using assms
  by (simp_all add: changed_def handleMove_changed checkGameState_frame render_frame
      addRandomTile_frame copyGrid_id)

lemma undoMove_none: "lastGrid s = None \<Longrightarrow> undoMove s = s"
  by (simp add: undoMove_def)

lemma undoMove_some:
  assumes "lastGrid s = Some saved"
  shows "grid (undoMove s) = saved" and "score (undoMove s) = lastScore s"
    and "lastGrid (undoMove s) = None" and "\<not> gameOver (undoMove s)" and "\<not> gameWon (undoMove s)"
  using assms
  by (simp_all add: undoMove_def updateScoreDisplay_frame render_frame copyGrid_id)

lemma undoMoveReturn_undefined: "undoMoveReturn s = Undefined"
  by (simp add: undoMoveReturn_def split: option.splits)

lemma initGame_flags: "\<not> gameOver (initGame u1 u2 u3 u4 s)" "\<not> gameWon (initGame u1 u2 u3 u4 s)"
  by (simp_all add: initGame_def Let_def updateScoreDisplay_frame render_frame addRandomTile_frame)

section \<open>Reachable states\<close>

lemma gameInv_initGame:
  assumes "unitDraw u1" and "unitDraw u3"
  shows "gameInv (initGame u1 u2 u3 u4 s)"
proof -
  let ?s0 = "s\<lparr>grid := replicate SIZE (replicate SIZE 0), score := 0, lastGrid := None,
                 lastScore := 0, lastAddedPos := None, mergedMap := {}, gameOver := False,
                 gameWon := False, message := NoMessage\<rparr>"
  let ?s1 = "snd (addRandomTile u1 u2 ?s0)"
  let ?s2 = "snd (addRandomTile u3 u4 ?s1)"
  have g0: "wf_grid (grid ?s0)" "tileGrid (grid ?s0)"
    by (simp_all add: zero_grid)
  have g1: "wf_grid (grid ?s1)" "tileGrid (grid ?s1)"
    using addRandomTile_grid [OF g0(1) assms(1)] g0(2) by blast+
  have g2: "wf_grid (grid ?s2)" "tileGrid (grid ?s2)"
    using addRandomTile_grid [OF g1(1) assms(2)] g1(2) by blast+
  have "initGame u1 u2 u3 u4 s = updateScoreDisplay (render ?s2)"
    by (simp add: initGame_def Let_def)
  then show ?thesis
    using g2
    by (simp add: gameInv_def updateScoreDisplay_frame render_frame addRandomTile_frame)
qed

lemma gameInv_handleMove:
  assumes inv: "gameInv s" and draw: "unitDraw u1"
  shows "gameInv (handleMove direction u1 u2 s)"
proof (cases "changed direction s")
  case False
  from inv have wf: "wf_grid (grid s)"
    by (simp add: gameInv_def)
  show ?thesis
    using inv unfolding handleMove_idle [OF wf False] by (simp add: gameInv_def)
next
  case True
  then have play: "\<not> (gameOver s \<or> gameWon s)" and m: "fst (runCore direction s)"
    by (simp_all add: changed_def)
  from inv have wf: "wf_grid (grid s)" and tile: "tileGrid (grid s)"
    by (simp_all add: gameInv_def)
  let ?s1 = "(snd (runCore direction s))\<lparr>lastGrid := Some (copyGrid (grid s)), lastScore := score s\<rparr>"
  let ?s2 = "snd (addRandomTile u1 u2 ?s1)"
  have g1: "wf_grid (grid ?s1)" "tileGrid (grid ?s1)"
    using runCore_facts(1,3) [OF wf, of direction] tile by simp_all
  have g2: "wf_grid (grid ?s2)" "tileGrid (grid ?s2)"
    using addRandomTile_grid [OF g1(1) draw] g1(2) by blast+
  have flags: "\<not> gameWon (render ?s2)" "\<not> gameOver (render ?s2)"
    using play by (simp_all add: render_frame addRandomTile_frame runCore_flags)
  have "handleMove direction u1 u2 s = checkGameState (render ?s2)"
    using play m by (rule handleMove_changed)
  then show ?thesis
    using g2 wf tile checkGameState_flags [OF flags]
    by (simp add: gameInv_def checkGameState_frame render_frame addRandomTile_frame copyGrid_id)
qed

lemma gameInv_undoMove: "gameInv s \<Longrightarrow> gameInv (undoMove s)"
  by (cases "lastGrid s")
     (simp_all add: undoMove_none gameInv_def undoMove_some)

lemma gameInv_renderTimeout: "gameInv s \<Longrightarrow> gameInv (renderTimeout s)"
  by (simp add: gameInv_def renderTimeout_def)

lemma reachable_gameInv: "reachable s \<Longrightarrow> gameInv s"
  by (induction rule: reachable.induct)
     (simp_all add: gameInv_initGame gameInv_handleMove gameInv_undoMove gameInv_renderTimeout)

section \<open>The score of a move\<close>

lemma leftRow_total:
  assumes "wf_grid (grid s)"
  shows "fst (snd (fold leftRowStep [0..<SIZE] (m, t, s))) =
    t + sum_list (map (\<lambda>r. gained (slideCombineRow (grid s ! r))) [0..<SIZE])"
proof -
  from assms obtain a0 a1 a2 a3 b0 b1 b2 b3 c0 c1 c2 c3 d0 d1 d2 d3 where
    g: "grid s = [[a0, a1, a2, a3], [b0, b1, b2, b3], [c0, c1, c2, c3], [d0, d1, d2, d3]]"
    by (rule wf_grid_explicit)
  show ?thesis
    by (simp add: upt_SIZE leftRowStep_def Let_def g)
qed

lemma rightRow_total:
  assumes "wf_grid (grid s)"
  shows "fst (snd (fold rightRowStep [0..<SIZE] (m, t, s))) =
    t + sum_list (map (\<lambda>r. gained (slideCombineRow (rev (grid s ! r)))) [0..<SIZE])"
proof -
  from assms obtain a0 a1 a2 a3 b0 b1 b2 b3 c0 c1 c2 c3 d0 d1 d2 d3 where
    g: "grid s = [[a0, a1, a2, a3], [b0, b1, b2, b3], [c0, c1, c2, c3], [d0, d1, d2, d3]]"
    by (rule wf_grid_explicit)
  show ?thesis
    by (simp add: upt_SIZE rightRowStep_def Let_def g)
qed

lemma upCol_total:
  assumes "wf_grid (grid s)"
  shows "fst (snd (fold upColStep [0..<SIZE] (m, t, s))) =
    t + sum_list (map (\<lambda>c. gained (slideCombineRow (colOf (grid s) c))) [0..<SIZE])"
proof -
  from assms obtain a0 a1 a2 a3 b0 b1 b2 b3 c0 c1 c2 c3 d0 d1 d2 d3 where
    g: "grid s = [[a0, a1, a2, a3], [b0, b1, b2, b3], [c0, c1, c2, c3], [d0, d1, d2, d3]]"
    by (rule wf_grid_explicit)
  show ?thesis
    by (simp add: upt_SIZE upColStep_def writeCell_def colOf_def Let_def g)
qed

lemma downCol_total:
  assumes "wf_grid (grid s)"
  shows "fst (snd (fold downColStep [0..<SIZE] (m, t, s))) =
    t + sum_list (map (\<lambda>c. gained (slideCombineRow (rev (colOf (grid s) c)))) [0..<SIZE])"
proof -
  from assms obtain a0 a1 a2 a3 b0 b1 b2 b3 c0 c1 c2 c3 d0 d1 d2 d3 where
    g: "grid s = [[a0, a1, a2, a3], [b0, b1, b2, b3], [c0, c1, c2, c3], [d0, d1, d2, d3]]"
    by (rule wf_grid_explicit)
  show ?thesis
    by (simp add: upt_SIZE downColStep_def writeCell_def colOf_def Let_def g)
qed

lemma score_bumpScore: "score (bumpScore t s) = score s + t"
  by (simp add: bumpScore_def updateScoreDisplay_def)

lemma core_score:
  assumes frame: "\<And>r a. sameButBoard s (snd (snd a)) \<Longrightarrow> sameButBoard s (snd (snd (step r a)))"
    and total: "fst (snd (fold step [0..<SIZE] (False, 0, s\<lparr>mergedMap := {}\<rparr>))) = T"
  shows "score (snd
    (case fold step [0..<SIZE] (False, 0, s\<lparr>mergedMap := {}\<rparr>) of
       (moved, totalGained, s1) \<Rightarrow>
         (moved, if totalGained > 0 then bumpScore totalGained s1 else s1))) = score s + max 0 T"
proof -
  let ?a = "fold step [0..<SIZE] (False, 0, s\<lparr>mergedMap := {}\<rparr>)"
  have "sameButBoard s (snd (snd ?a))"
    by (rule fold_preserves) (simp_all add: sameButBoard_refl frame)
  then have "score (snd (snd ?a)) = score s"
    by (simp add: sameButBoard_def)
  with total show ?thesis
    by (cases ?a) (simp add: score_bumpScore)
qed

lemma moveLeftCore_score:
  "wf_grid (grid s) \<Longrightarrow> score (snd (moveLeftCore s)) = score s + max 0 (moveGain ''left'' (grid s))"
  unfolding moveLeftCore_def
  by (rule core_score) (simp_all add: leftRowStep_frame leftRow_total moveGain_def lineOf_def)

lemma moveRightCore_score:
  "wf_grid (grid s) \<Longrightarrow> score (snd (moveRightCore s)) = score s + max 0 (moveGain ''right'' (grid s))"
  unfolding moveRightCore_def
  by (rule core_score) (simp_all add: rightRowStep_frame rightRow_total moveGain_def lineOf_def)

lemma moveUpCore_score:
  "wf_grid (grid s) \<Longrightarrow> score (snd (moveUpCore s)) = score s + max 0 (moveGain ''up'' (grid s))"
  unfolding moveUpCore_def
  by (rule core_score) (simp_all add: upColStep_frame upCol_total moveGain_def lineOf_def)

lemma moveDownCore_score:
  "wf_grid (grid s) \<Longrightarrow> score (snd (moveDownCore s)) = score s + max 0 (moveGain ''down'' (grid s))"
  unfolding moveDownCore_def
  by (rule core_score) (simp_all add: downColStep_frame downCol_total moveGain_def lineOf_def)

lemma runCore_score:
  assumes "wf_grid (grid s)"
  shows "score (snd (runCore direction s)) = score s + max 0 (moveGain direction (grid s))"
proof -
  consider "direction = ''left''" | "direction = ''right''" | "direction = ''up''"
    | "direction = ''down''" | "direction \<notin> {''left'', ''right'', ''up'', ''down''}"
    by blast
  then show ?thesis
  proof cases
    case 1
    with assms show ?thesis by (simp add: runCore_cases moveLeftCore_score)
  next
    case 2
    with assms show ?thesis by (simp add: runCore_cases moveRightCore_score)
  next
    case 3
    with assms show ?thesis by (simp add: runCore_cases moveUpCore_score)
  next
    case 4
    with assms show ?thesis by (simp add: runCore_cases moveDownCore_score)
  next
    case 5
    then show ?thesis by (simp add: runCore_other moveGain_def)
  qed
qed

lemma tileValue_nonneg: "tileValue v \<Longrightarrow> 0 \<le> v"
  by (auto simp: tileValue_def)

lemma specGained_nonneg: "\<forall>x \<in> set xs. 0 \<le> x \<Longrightarrow> 0 \<le> specGained xs"
  by (induction xs rule: specGained.induct) auto

lemma gained_nonneg: "\<forall>x \<in> set l. 0 \<le> x \<Longrightarrow> 0 \<le> gained (slideCombineRow l)"
  unfolding gained_eq by (rule specGained_nonneg) simp

lemma tile_cell:
  assumes "wf_grid g" and "tileGrid g" and "r < SIZE" and "c < SIZE"
  shows "tileValue (g ! r ! c)"
proof -
  from assms(1,3) have "g ! r \<in> set g"
    by (simp add: wf_grid_def)
  moreover from assms(1,3,4) have "g ! r ! c \<in> set (g ! r)"
    by (simp add: wf_grid_rows)
  ultimately show ?thesis
    using assms(2) by (auto simp: tileGrid_def)
qed

lemma lineOf_nonneg:
  assumes wf: "wf_grid g" and tile: "tileGrid g" and i: "i < SIZE"
  shows "\<forall>x \<in> set (lineOf direction g i). 0 \<le> x"
proof -
  have row: "\<forall>x \<in> set (g ! i). 0 \<le> x"
  proof
    fix x
    assume "x \<in> set (g ! i)"
    then obtain c where "c < length (g ! i)" and "x = g ! i ! c"
      by (metis in_set_conv_nth)
    with wf tile i show "0 \<le> x"
      by (simp add: wf_grid_rows tile_cell tileValue_nonneg)
  qed
  have col: "\<forall>x \<in> set (colOf g i). 0 \<le> x"
    using wf tile i by (auto simp: colOf_def tile_cell tileValue_nonneg)
  from row col show ?thesis
    by (simp add: lineOf_def)
qed

lemma moveGain_nonneg:
  assumes "wf_grid g" and "tileGrid g"
  shows "0 \<le> moveGain direction g"
proof -
  have "0 \<le> sum_list (map (\<lambda>i. gained (slideCombineRow (lineOf direction g i))) [0..<SIZE])"
    by (rule sum_list_nonneg) (auto simp: gained_nonneg lineOf_nonneg [OF assms])
  then show ?thesis
    by (simp add: moveGain_def)
qed

section \<open>The example states evaluated\<close>

lemma slideCombineRow_2222:
  "slideCombineRow [2, 2, 2, 2] = \<lparr>newRow = [4, 4, 0, 0], mergedIndices = [0, 1], gained = 8\<rparr>"
  by (simp add: slideCombineRow_def mergeLoop.simps padZeros.simps spliceOne_def SIZE_def)

lemma slideCombineRow_0202:
  "slideCombineRow [0, 2, 0, 2] = \<lparr>newRow = [4, 0, 0, 0], mergedIndices = [0], gained = 4\<rparr>"
  by (simp add: slideCombineRow_def mergeLoop.simps padZeros.simps spliceOne_def SIZE_def)

lemma slideCombineRow_2200:
  "slideCombineRow [2, 2, 0, 0] = \<lparr>newRow = [4, 0, 0, 0], mergedIndices = [0], gained = 4\<rparr>"
  by (simp add: slideCombineRow_def mergeLoop.simps padZeros.simps spliceOne_def SIZE_def)

lemma slideCombineRow_0000:
  "slideCombineRow [0, 0, 0, 0] = \<lparr>newRow = [0, 0, 0, 0], mergedIndices = [], gained = 0\<rparr>"
  by (simp add: slideCombineRow_def mergeLoop.simps padZeros.simps SIZE_def)

lemma slideCombineRow_2000:
  "slideCombineRow [2, 0, 0, 0] = \<lparr>newRow = [2, 0, 0, 0], mergedIndices = [], gained = 0\<rparr>"
  by (simp add: slideCombineRow_def mergeLoop.simps padZeros.simps spliceOne_def SIZE_def)

lemma unitDraw_drawZero: "unitDraw drawZero"
  by (simp add: unitDraw_def drawZero_def)

lemma unitDraw_drawHalf: "unitDraw drawHalf"
  by (simp add: unitDraw_def drawHalf_def)

lemma unitDraw_drawBelowFourSevenths: "unitDraw drawBelowFourSevenths"
  by (simp add: unitDraw_def drawBelowFourSevenths_def)

lemma reachable_start: "reachable (initGame drawZero drawZero drawZero drawZero (initial 0))"
  by (rule reachable.start) (simp_all add: unitDraw_drawZero)

lemma randomIndex_drawZero: "randomIndex drawZero n = 0"
  by (simp add: randomIndex_def roundedProduct_def drawZero_def bitLength.simps [of 0])

lemma drawZero_below: "drawValue drawZero < pointNine"
  by (simp add: drawValue_def drawZero_def pointNine_def)

lemma randomIndex_drawHalf_14: "randomIndex drawHalf 14 = 7"
  by (simp add: randomIndex_def roundedProduct_def drawHalf_def bitLength.simps Let_def)

lemma randomIndex_drawBelowFourSevenths_14: "randomIndex drawBelowFourSevenths 14 = 8"
  by (simp add: randomIndex_def roundedProduct_def drawBelowFourSevenths_def bitLength.simps Let_def)

lemma wf_pairState: "wf_grid (grid pairState)"
  by (simp add: wf_grid_def pairState_def SIZE_def)

lemma emptyCells_pairState:
  "emptyCells (grid pairState) =
     [(0, 2), (0, 3), (1, 0), (1, 1), (1, 2), (1, 3), (2, 0), (2, 1), (2, 2), (2, 3),
      (3, 0), (3, 1), (3, 2), (3, 3)]"
  by (simp add: emptyCells_def pairState_def upt_SIZE)

lemma emptyCells_zero_grid:
  "emptyCells [[0, 0, 0, 0], [0, 0, 0, 0], [0, 0, 0, 0], [0, 0, 0, 0]] =
     [(0, 0), (0, 1), (0, 2), (0, 3), (1, 0), (1, 1), (1, 2), (1, 3),
      (2, 0), (2, 1), (2, 2), (2, 3), (3, 0), (3, 1), (3, 2), (3, 3)]"
  by (simp add: emptyCells_def upt_SIZE)

lemma emptyCells_one_tile:
  "emptyCells [[2, 0, 0, 0], [0, 0, 0, 0], [0, 0, 0, 0], [0, 0, 0, 0]] =
     [(0, 1), (0, 2), (0, 3), (1, 0), (1, 1), (1, 2), (1, 3),
      (2, 0), (2, 1), (2, 2), (2, 3), (3, 0), (3, 1), (3, 2), (3, 3)]"
  by (simp add: emptyCells_def upt_SIZE)

lemma emptyCells_fullState: "emptyCells (grid fullState) = []"
  by (simp add: emptyCells_def fullState_def upt_SIZE)

lemma hasMoves_fullState: "\<not> hasMoves (grid fullState)"
  by (simp add: hasMoves_def fullState_def SIZE_def upt_4)

lemma runCore_left_pairState:
  "runCore ''left'' pairState =
     (True, pairState\<lparr>grid := [[4, 0, 0, 0], [0, 0, 0, 0], [0, 0, 0, 0], [0, 0, 0, 0]],
              mergedMap := {(0, 0)}, score := 4, bestScore := 4\<rparr>)"
  by (simp add: runCore_cases moveLeftCore_def upt_SIZE leftRowStep_def pairState_def
      slideCombineRow_2200 slideCombineRow_0000 bumpScore_def updateScoreDisplay_def)

lemma changed_left_pairState: "changed ''left'' pairState"
  by (simp add: changed_def runCore_left_pairState) (simp add: pairState_def)

lemma handleMove_left_pairState:
  "handleMove ''left'' drawZero drawZero pairState =
     \<lparr>grid = [[4, 2, 0, 0], [0, 0, 0, 0], [0, 0, 0, 0], [0, 0, 0, 0]], score = 4,
      lastGrid = Some [[2, 2, 0, 0], [0, 0, 0, 0], [0, 0, 0, 0], [0, 0, 0, 0]], lastScore = 0,
      lastAddedPos = Some (0, 1), mergedMap = {(0, 0)},
      gameOver = False, gameWon = False, bestScore = 4, message = NoMessage\<rparr>"
proof -
  have p: "\<not> (gameOver pairState \<or> gameWon pairState)"
    by (simp add: pairState_def)
  have m: "fst (runCore ''left'' pairState)"
    by (simp add: runCore_left_pairState)
  show ?thesis
    unfolding handleMove_changed [OF p m] runCore_left_pairState
    by (simp add: pairState_def copyGrid_def addRandomTile_def emptyCells_def upt_SIZE
        render_def updateScoreDisplay_def checkGameState_def hasMoves_def Let_def
        randomIndex_drawZero drawZero_below)
qed

lemma runCore_up_pairState: "runCore ''up'' pairState = (False, pairState)"
  by (simp add: runCore_cases moveUpCore_def upt_SIZE upColStep_def colOf_def writeCell_def
      pairState_def slideCombineRow_2000 slideCombineRow_0000 Let_def)

lemma initGame_example:
  "initGame drawZero drawZero drawZero drawZero (initial 0) =
     \<lparr>grid = [[2, 2, 0, 0], [0, 0, 0, 0], [0, 0, 0, 0], [0, 0, 0, 0]], score = 0,
      lastGrid = None, lastScore = 0, lastAddedPos = Some (0, 1), mergedMap = {},
      gameOver = False, gameWon = False, bestScore = 0, message = NoMessage\<rparr>"
  by (simp add: initGame_def initial_def addRandomTile_def zero_grid_explicit
      emptyCells_zero_grid emptyCells_one_tile render_def updateScoreDisplay_def Let_def
      randomIndex_drawZero drawZero_below)

lemma tileGrid_pairState: "tileGrid (grid pairState)"
  by (simp add: tileGrid_def pairState_def tileValue_2 tileValue_zero)

lemma moveGain_left_pairState: "moveGain ''left'' (grid pairState) = 4"
  by (simp add: moveGain_def lineOf_def upt_SIZE pairState_def slideCombineRow_2200
      slideCombineRow_0000)

section \<open>Claims about the line transform\<close>

text \<open>
  C1. On every line of length 4, \<open>slideCombineRow\<close> computes what the specification
  describes for \<open>compactAndMerge\<close>: the zeros are removed with the order of the other
  entries kept, one left-to-right pass replaces each adjacent equal pair by one entry of
  double the value, adds that value to \<open>gained\<close> and records the output index, the doubled
  entry is not compared again, and the result is padded with zeros to length 4. The two
  examples of the specification evaluate as stated.
\<close>

theorem slideCombineRow_compacts_merges_pads:
  "length line = 4 \<Longrightarrow>
     slideCombineRow line = specCompactAndMerge line
     \<and> length (newRow (slideCombineRow line)) = 4
     \<and> slideCombineRow [2, 2, 2, 2] =
         \<lparr>newRow = [4, 4, 0, 0], mergedIndices = [0, 1], gained = 8\<rparr>
     \<and> slideCombineRow [0, 2, 0, 2] =
         \<lparr>newRow = [4, 0, 0, 0], mergedIndices = [0], gained = 4\<rparr>"
  using newRow_length [of line]
  by (simp only: slideCombineRow_2222 slideCombineRow_0202 simp_thms)
     (simp add: slideCombineRow_spec SIZE_def)

theorem slideCombineRow_compacts_merges_pads_witness:
  "length [2, 0, 2, 4 :: int] = 4
   \<and> slideCombineRow [2, 0, 2, 4] = \<lparr>newRow = [4, 4, 0, 0], mergedIndices = [0], gained = 4\<rparr>
   \<and> length (newRow (slideCombineRow [2, 0, 2, 4])) = 4"
  using slideCombineRow_compacts_merges_pads [of "[2, 0, 2, 4]"]
  by (simp add: specCompactAndMerge_def SIZE_def eval_nat_numeral)

text \<open>
  C9. A line that is an output of \<open>slideCombineRow\<close> and has no non-zero entry equal to
  its right neighbour is returned unchanged by \<open>slideCombineRow\<close>, with nothing gained
  and no merged index.
\<close>

theorem slideCombineRow_idempotent:
  assumes out: "line = newRow (slideCombineRow l0)" and adj: "\<not> adjacentEqual line"
  shows "slideCombineRow line = \<lparr>newRow = line, mergedIndices = [], gained = 0\<rparr>"
proof -
  let ?m = "specMergedLine (filter (\<lambda>v. v \<noteq> 0) l0)"
  have line: "line = ?m @ replicate (SIZE - length ?m) 0"
    using out by (simp only: newRow_eq)
  have nz: "0 \<notin> set ?m"
    by (rule specMergedLine_nonzero) simp
  have compact: "filter (\<lambda>v. v \<noteq> 0) line = ?m"
    using out by (simp only: newRow_compacted)
  have "\<not> adjacentEqual ?m"
    using adj adjacentEqual_append [of ?m "replicate (SIZE - length ?m) 0"] line by auto
  with nz have same: "specMergedLine ?m = ?m \<and> specMergedAt 0 ?m = [] \<and> specGained ?m = 0"
    by (rule specMerged_no_adjacentEqual)
  have "slideCombineRow line =
      \<lparr>newRow = ?m @ replicate (SIZE - length ?m) 0, mergedIndices = [], gained = 0\<rparr>"
    using same compact by (simp add: slideCombineRow_spec specCompactAndMerge_def Let_def)
  then show ?thesis
    using line by simp
qed

theorem slideCombineRow_idempotent_witness:
  "[4, 2, 0, 0] = newRow (slideCombineRow [2, 2, 2, 0])
   \<and> \<not> adjacentEqual [4, 2, 0, 0]
   \<and> slideCombineRow [4, 2, 0, 0] = \<lparr>newRow = [4, 2, 0, 0], mergedIndices = [], gained = 0\<rparr>"
proof -
  have h1: "[4, 2, 0, 0] = newRow (slideCombineRow [2, 2, 2, 0])"
    by (simp add: slideCombineRow_def mergeLoop.simps padZeros.simps spliceOne_def SIZE_def)
  have h2: "\<not> adjacentEqual [4, 2, 0, 0]"
    by simp
  from h1 h2 slideCombineRow_idempotent [OF h1 h2] show ?thesis
    by blast
qed

section \<open>Claims about the game state\<close>

text \<open>
  C7. \<open>addRandomTile\<close> returns \<open>null\<close> exactly when no cell is empty, and then the grid
  is unchanged. Otherwise the list of empty cells holds every empty cell exactly once and
  the first draw picks its entry \<open>k\<close>, the floor of the double product of the draw and
  the number \<open>n\<close> of empty cells: \<open>k\<close> is a valid index, it lies within the rounding of
  the product (at most \<open>1 / 2 ^ 50\<close>) of the exact product \<open>x\<close>, and every draw with
  \<open>j \<le> x < j + 1 - 1 / 2 ^ 50\<close> picks entry \<open>j\<close>, so that each empty cell owns an interval
  of draws of the same width up to that rounding. The picked cell was empty and is set to 2
  when the second draw is below 0.9 and to 4 otherwise, no other cell changes, and the
  position is returned.
\<close>

theorem addRandomTile_spawn:
  fixes s :: game and u1 u2 :: draw
  defines "cells \<equiv> emptyCells (grid s)"
    and "x \<equiv> drawValue u1 * real (length (emptyCells (grid s)))"
    and "k \<equiv> randomIndex u1 (length (emptyCells (grid s)))"
    and "res \<equiv> addRandomTile u1 u2 s"
  assumes wf: "wf_grid (grid s)" and draw: "unitDraw u1" and draw2: "unitDraw u2"
  shows "set cells = {(r, c). r < SIZE \<and> c < SIZE \<and> grid s ! r ! c = 0}
    \<and> distinct cells
    \<and> ((fst res = None) = (cells = []))
    \<and> (cells = [] \<longrightarrow> grid (snd res) = grid s)
    \<and> (cells \<noteq> [] \<longrightarrow>
          k < length cells
          \<and> real k \<le> x + 1 / 2 ^ 50 \<and> x < real k + 1
          \<and> (\<forall>j. real j \<le> x \<and> x + 1 / 2 ^ 50 < real j + 1 \<longrightarrow> k = j)
          \<and> fst res = Some (cells ! k)
          \<and> grid s ! fst (cells ! k) ! snd (cells ! k) = 0
          \<and> grid (snd res) =
              (grid s)[fst (cells ! k) :=
                 (grid s ! fst (cells ! k))[snd (cells ! k) :=
                    (if drawValue u2 < 9 / 10 then 2 else 4)]]
          \<and> grid (snd res) ! fst (cells ! k) ! snd (cells ! k) =
              (if drawValue u2 < 9 / 10 then 2 else 4))"
proof (intro conjI impI allI)
  show "set cells = {(r, c). r < SIZE \<and> c < SIZE \<and> grid s ! r ! c = 0}"
    unfolding cells_def by (rule set_emptyCells)
  show "distinct cells"
    unfolding cells_def by (rule distinct_emptyCells)
  show "(fst res = None) = (cells = [])"
    unfolding cells_def res_def
    by (cases "emptyCells (grid s) = []") (simp_all add: addRandomTile_none addRandomTile_some)
  show "grid (snd res) = grid s" if "cells = []"
    using that unfolding cells_def res_def by (simp add: addRandomTile_none)
next
  assume ne: "cells \<noteq> []"
  then have pos: "0 < length (emptyCells (grid s))"
    by (simp add: cells_def)
  note n16 = length_emptyCells [of "grid s"]
  show k: "k < length cells"
    unfolding k_def cells_def using draw pos by (rule randomIndex_less)
  show lo: "real k \<le> x + 1 / 2 ^ 50"
    unfolding k_def x_def using draw n16 by (rule randomIndex_below)
  show hi: "x < real k + 1"
    unfolding k_def x_def using draw n16 by (rule randomIndex_above)
  show "k = j" if "real j \<le> x \<and> x + 1 / 2 ^ 50 < real j + 1" for j
    using lo hi that by (blast intro: index_unique)
  show "fst res = Some (cells ! k)"
    using ne unfolding cells_def res_def k_def by (simp add: addRandomTile_some)
  show "grid s ! fst (cells ! k) ! snd (cells ! k) = 0"
    using k emptyCells_nth [of k "grid s"] unfolding cells_def by simp
  show upd: "grid (snd res) =
      (grid s)[fst (cells ! k) :=
         (grid s ! fst (cells ! k))[snd (cells ! k) := (if drawValue u2 < 9 / 10 then 2 else 4)]]"
    using ne unfolding cells_def res_def k_def
    by (simp add: addRandomTile_some below_pointNine [OF draw2])
  show "grid (snd res) ! fst (cells ! k) ! snd (cells ! k) = (if drawValue u2 < 9 / 10 then 2 else 4)"
    unfolding upd
    using k emptyCells_nth [of k "grid s"] cell_write(4) [OF wf] unfolding cells_def by blast
qed

theorem addRandomTile_spawn_witness:
  "wf_grid (grid pairState) \<and> unitDraw drawHalf \<and> unitDraw drawZero
   \<and> unitDraw drawBelowFourSevenths
   \<and> fst (addRandomTile drawHalf drawZero pairState) = Some (2, 1)
   \<and> grid (snd (addRandomTile drawHalf drawZero pairState)) =
       [[2, 2, 0, 0], [0, 0, 0, 0], [0, 2, 0, 0], [0, 0, 0, 0]]
   \<and> fst (addRandomTile drawBelowFourSevenths drawHalf pairState) = Some (2, 2)
   \<and> grid (snd (addRandomTile drawBelowFourSevenths drawHalf pairState)) =
       [[2, 2, 0, 0], [0, 0, 0, 0], [0, 0, 2, 0], [0, 0, 0, 0]]
   \<and> wf_grid (grid fullState)
   \<and> fst (addRandomTile drawHalf drawZero fullState) = None
   \<and> grid (snd (addRandomTile drawHalf drawZero fullState)) = grid fullState"
proof -
  have g: "grid pairState = [[2, 2, 0, 0], [0, 0, 0, 0], [0, 0, 0, 0], [0, 0, 0, 0]]"
    by (simp add: pairState_def)
  have f: "wf_grid (grid fullState)"
    by (simp add: wf_grid_def fullState_def SIZE_def)
  have len: "length (emptyCells (grid pairState)) = 14"
    by (simp add: emptyCells_pairState)
  have v0: "drawValue drawZero < 9 / 10" and vh: "drawValue drawHalf < 9 / 10"
    by (simp_all add: drawValue_def drawZero_def drawHalf_def)
  have half: "fst (addRandomTile drawHalf drawZero pairState) = Some (2, 1)
      \<and> grid (snd (addRandomTile drawHalf drawZero pairState)) =
          [[2, 2, 0, 0], [0, 0, 0, 0], [0, 2, 0, 0], [0, 0, 0, 0]]"
    using addRandomTile_spawn [OF wf_pairState unitDraw_drawHalf unitDraw_drawZero,
        unfolded len randomIndex_drawHalf_14, unfolded emptyCells_pairState] v0
    by (simp add: g)
  have near: "fst (addRandomTile drawBelowFourSevenths drawHalf pairState) = Some (2, 2)
      \<and> grid (snd (addRandomTile drawBelowFourSevenths drawHalf pairState)) =
          [[2, 2, 0, 0], [0, 0, 0, 0], [0, 0, 2, 0], [0, 0, 0, 0]]"
    using addRandomTile_spawn [OF wf_pairState unitDraw_drawBelowFourSevenths unitDraw_drawHalf,
        unfolded len randomIndex_drawBelowFourSevenths_14, unfolded emptyCells_pairState] vh
    by (simp add: g)
  have none: "fst (addRandomTile drawHalf drawZero fullState) = None
      \<and> grid (snd (addRandomTile drawHalf drawZero fullState)) = grid fullState"
    using addRandomTile_spawn [OF f unitDraw_drawHalf unitDraw_drawZero]
    unfolding emptyCells_fullState by simp
  from wf_pairState unitDraw_drawHalf unitDraw_drawZero unitDraw_drawBelowFourSevenths
    f half near none
  show ?thesis
    by blast
qed

text \<open>
  C3, as amended. A changed move stores the grid and the score it started from as the undo
  snapshot, and \<open>undoMove\<close> on a state that holds a snapshot restores exactly that grid
  and score, clears the snapshot and clears both terminal flags; a second \<open>undoMove\<close>
  right after changes nothing, and \<open>undoMove\<close> without a snapshot changes nothing. On
  both paths the call returns \<open>undefined\<close>: the restored state is the module state it
  leaves behind, not a returned value.
\<close>

theorem undoMove_restores:
  "(changed direction s \<longrightarrow>
      lastGrid (handleMove direction u1 u2 s) = Some (grid s)
      \<and> lastScore (handleMove direction u1 u2 s) = score s
      \<and> grid (undoMove (handleMove direction u1 u2 s)) = grid s
      \<and> score (undoMove (handleMove direction u1 u2 s)) = score s)
   \<and> (lastGrid s \<noteq> None \<longrightarrow>
      Some (grid (undoMove s)) = lastGrid s
      \<and> score (undoMove s) = lastScore s
      \<and> lastGrid (undoMove s) = None
      \<and> \<not> gameOver (undoMove s) \<and> \<not> gameWon (undoMove s)
      \<and> undoMove (undoMove s) = undoMove s)
   \<and> (lastGrid s = None \<longrightarrow> undoMove s = s)
   \<and> undoMoveReturn s = Undefined"
proof (intro conjI impI)
  assume c: "changed direction s"
  show "lastGrid (handleMove direction u1 u2 s) = Some (grid s)"
    and "lastScore (handleMove direction u1 u2 s) = score s"
    using c by (rule handleMove_snapshot)+
  then show "grid (undoMove (handleMove direction u1 u2 s)) = grid s"
    and "score (undoMove (handleMove direction u1 u2 s)) = score s"
    by (simp_all add: undoMove_some)
next
  assume "lastGrid s \<noteq> None"
  then obtain saved where saved: "lastGrid s = Some saved"
    by blast
  note u = undoMove_some [OF saved]
  show "Some (grid (undoMove s)) = lastGrid s" "score (undoMove s) = lastScore s"
    "lastGrid (undoMove s) = None" "\<not> gameOver (undoMove s)" "\<not> gameWon (undoMove s)"
    using u saved by simp_all
  show "undoMove (undoMove s) = undoMove s"
    using u(3) by (rule undoMove_none)
next
  assume "lastGrid s = None"
  then show "undoMove s = s"
    by (rule undoMove_none)
next
  show "undoMoveReturn s = Undefined"
    by (rule undoMoveReturn_undefined)
qed

theorem undoMove_restores_witness:
  "changed ''left'' pairState
   \<and> lastGrid (handleMove ''left'' drawZero drawZero pairState) \<noteq> None
   \<and> grid (undoMove (handleMove ''left'' drawZero drawZero pairState)) = grid pairState
   \<and> score (undoMove (handleMove ''left'' drawZero drawZero pairState)) = score pairState
   \<and> lastGrid (undoMove (handleMove ''left'' drawZero drawZero pairState)) = None
   \<and> undoMove (undoMove (handleMove ''left'' drawZero drawZero pairState))
       = undoMove (handleMove ''left'' drawZero drawZero pairState)
   \<and> undoMoveReturn (handleMove ''left'' drawZero drawZero pairState) = Undefined
   \<and> lastGrid pairState = None \<and> undoMove pairState = pairState
   \<and> undoMoveReturn pairState = Undefined"
proof -
  have n: "lastGrid pairState = None"
    by (simp add: pairState_def)
  have l: "lastGrid (handleMove ''left'' drawZero drawZero pairState) \<noteq> None"
    by (simp add: handleMove_left_pairState)
  from undoMove_restores [of "''left''" pairState drawZero drawZero]
    undoMove_restores [of "''left''" "handleMove ''left'' drawZero drawZero pairState"]
    changed_left_pairState n l
  show ?thesis
    by simp
qed

text \<open>
  C3 as stated fails: after a changed move the state holds a snapshot, and the call of
  \<open>undoMove\<close> does not return the restored state.
\<close>

theorem undoMove_return_counterexample:
  "lastGrid (handleMove ''left'' drawZero drawZero pairState) \<noteq> None
   \<and> undoMoveReturn (handleMove ''left'' drawZero drawZero pairState)
       \<noteq> ReturnedState (undoMove (handleMove ''left'' drawZero drawZero pairState))"
  by (simp add: handleMove_left_pairState undoMoveReturn_def)

text \<open>
  C4. In a state whose \<open>gameOver\<close> or \<open>gameWon\<close> flag is set, \<open>handleMove\<close> returns at
  once: the whole state (grid, score, flags, snapshot and everything else) is unchanged and
  the attempt is not a changed move, for any direction, any draws and any number of
  attempts in a row. \<open>initGame\<close> clears both flags, and so does \<open>undoMove\<close> when a
  snapshot is held.
\<close>

theorem handleMove_rejected_when_terminal:
  assumes "gameOver s \<or> gameWon s"
  shows "handleMove direction u1 u2 s = s
    \<and> \<not> changed direction s
    \<and> fold (\<lambda>(d, a, b). handleMove d a b) attempts s = s
    \<and> \<not> gameOver (initGame v1 v2 v3 v4 s) \<and> \<not> gameWon (initGame v1 v2 v3 v4 s)
    \<and> (lastGrid s \<noteq> None \<longrightarrow> \<not> gameOver (undoMove s) \<and> \<not> gameWon (undoMove s))"
  using assms undoMove_some(4,5) [of s]
  by (auto simp: handleMove_rejected changed_def fold_handleMove_rejected initGame_flags)

theorem handleMove_rejected_when_terminal_witness:
  "(gameOver wonState \<or> gameWon wonState)
   \<and> handleMove ''left'' drawZero drawZero wonState = wonState
   \<and> fold (\<lambda>(d, a, b). handleMove d a b)
        [(''left'', drawZero, drawZero), (''up'', drawHalf, drawZero)] wonState = wonState
   \<and> lastGrid wonState \<noteq> None
   \<and> \<not> gameOver (undoMove wonState) \<and> \<not> gameWon (undoMove wonState)"
proof -
  have t: "gameOver wonState \<or> gameWon wonState"
    by (simp add: wonState_def)
  have l: "lastGrid wonState \<noteq> None"
    by (simp add: wonState_def)
  from handleMove_rejected_when_terminal
    [OF t, of "''left''" drawZero drawZero
      "[(''left'', drawZero, drawZero), (''up'', drawHalf, drawZero)]"
      drawZero drawZero drawZero drawZero] t l
  show ?thesis
    by blast
qed

text \<open>
  C5. \<open>checkGameState\<close> tests the win condition (some cell is 2048, and the game not yet
  won) first, and sets \<open>gameWon\<close> alone when it holds, even on a board without moves; only
  otherwise does it test \<open>hasMoves\<close>, which holds exactly when some cell is empty or equals
  its right or lower neighbour, and set \<open>gameOver\<close>. One evaluation changes at most one of
  the two flags, and in no reachable state are both flags set.
\<close>

theorem won_over_exclusive:
  "(list_ex (\<lambda>row. 2048 \<in> set row) (grid s) \<and> \<not> gameWon s \<longrightarrow>
       gameWon (checkGameState s) \<and> gameOver (checkGameState s) = gameOver s)
   \<and> (\<not> (list_ex (\<lambda>row. 2048 \<in> set row) (grid s) \<and> \<not> gameWon s) \<longrightarrow>
       gameWon (checkGameState s) = gameWon s
       \<and> gameOver (checkGameState s) = (gameOver s \<or> \<not> hasMoves (grid s)))
   \<and> (hasMoves (grid s) \<longleftrightarrow>
       (\<exists>r<SIZE. \<exists>c<SIZE. grid s ! r ! c = 0
          \<or> (c + 1 < SIZE \<and> grid s ! r ! c = grid s ! r ! (c + 1))
          \<or> (r + 1 < SIZE \<and> grid s ! r ! c = grid s ! (r + 1) ! c)))
   \<and> \<not> (gameWon (checkGameState s) \<noteq> gameWon s \<and> gameOver (checkGameState s) \<noteq> gameOver s)
   \<and> (reachable s' \<longrightarrow> \<not> (gameWon s' \<and> gameOver s'))"
proof (intro conjI)
  show "hasMoves (grid s) \<longleftrightarrow>
       (\<exists>r<SIZE. \<exists>c<SIZE. grid s ! r ! c = 0
          \<or> (c + 1 < SIZE \<and> grid s ! r ! c = grid s ! r ! (c + 1))
          \<or> (r + 1 < SIZE \<and> grid s ! r ! c = grid s ! (r + 1) ! c))"
    by (rule hasMoves_iff)
  show "reachable s' \<longrightarrow> \<not> (gameWon s' \<and> gameOver s')"
    using reachable_gameInv [of s'] by (simp add: gameInv_def)
qed (simp_all add: checkGameState_def)

theorem won_over_exclusive_witness:
  "list_ex (\<lambda>row. 2048 \<in> set row) (grid fullState) \<and> \<not> gameWon fullState
   \<and> \<not> hasMoves (grid fullState)
   \<and> gameWon (checkGameState fullState) \<and> \<not> gameOver (checkGameState fullState)
   \<and> \<not> list_ex (\<lambda>row. 2048 \<in> set row) (grid pairState) \<and> hasMoves (grid pairState)
   \<and> \<not> gameWon (checkGameState pairState) \<and> \<not> gameOver (checkGameState pairState)
   \<and> reachable (initGame drawZero drawZero drawZero drawZero (initial 0))
   \<and> \<not> (gameWon (initGame drawZero drawZero drawZero drawZero (initial 0)) \<and> gameOver (initGame drawZero drawZero drawZero drawZero (initial 0)))"
proof -
  have a: "list_ex (\<lambda>row. 2048 \<in> set row) (grid fullState) \<and> \<not> gameWon fullState"
    and b: "\<not> gameOver fullState"
    by (simp_all add: fullState_def)
  have c: "\<not> list_ex (\<lambda>row. 2048 \<in> set row) (grid pairState)"
    and d: "\<not> gameWon pairState" "\<not> gameOver pairState"
    by (simp_all add: pairState_def)
  have e: "hasMoves (grid pairState)"
    by (simp add: hasMoves_def pairState_def upt_SIZE)
  from won_over_exclusive [of fullState "initGame drawZero drawZero drawZero drawZero (initial 0)"]
    won_over_exclusive [of pairState "initGame drawZero drawZero drawZero drawZero (initial 0)"]
    a b c d e hasMoves_fullState reachable_start
  show ?thesis
    by blast
qed

text \<open>
  C10. In every reachable state the grid has four rows of four cells and every cell is 0 or
  a power of two that is at least 2.
\<close>

theorem reachable_tiles:
  "reachable s \<Longrightarrow>
     wf_grid (grid s)
     \<and> (\<forall>row \<in> set (grid s). \<forall>v \<in> set row. v = 0 \<or> (\<exists>k\<ge>1. v = 2 ^ k))"
  using reachable_gameInv [of s] by (simp add: gameInv_def tileGrid_def tileValue_def)

theorem reachable_tiles_witness:
  "reachable (initGame drawZero drawZero drawZero drawZero (initial 0))
   \<and> grid (initGame drawZero drawZero drawZero drawZero (initial 0)) = [[2, 2, 0, 0], [0, 0, 0, 0], [0, 0, 0, 0], [0, 0, 0, 0]]
   \<and> wf_grid (grid (initGame drawZero drawZero drawZero drawZero (initial 0)))
   \<and> tileGrid (grid (initGame drawZero drawZero drawZero drawZero (initial 0)))"
  using reachable_tiles [OF reachable_start] reachable_start
  unfolding tileGrid_def tileValue_def
  by (simp add: initGame_example)

text \<open>
  C2, as amended. A merge replaces two equal tiles by one tile of their sum, so the
  movement itself leaves the sum of the cells unchanged. On a 4 by 4 grid, a changed move
  always leaves an empty cell, a tile is spawned, and the sum of the cells after the move
  minus the sum before it equals the value of the spawned tile, which is 2 or 4. The total
  gained by the merges goes to the score instead: the score rises by the total when it is
  positive, which on a grid of tile values means by exactly the total.
\<close>

theorem handleMove_sum_change:
  assumes wf: "wf_grid (grid s)" and draw: "unitDraw u1" and chg: "changed direction s"
  shows "gridSum (grid (handleMove direction u1 u2 s)) - gridSum (grid s)
      = spawnedValue (handleMove direction u1 u2 s)
    \<and> spawnedValue (handleMove direction u1 u2 s) = (if drawValue u2 < pointNine then 2 else 4)
    \<and> lastAddedPos (handleMove direction u1 u2 s) \<noteq> None
    \<and> score (handleMove direction u1 u2 s) = score s + max 0 (moveGain direction (grid s))
    \<and> (tileGrid (grid s) \<longrightarrow>
          score (handleMove direction u1 u2 s) - score s = moveGain direction (grid s))"
proof -
  from chg have play: "\<not> (gameOver s \<or> gameWon s)" and m: "fst (runCore direction s)"
    by (simp_all add: changed_def)
  let ?v = "if drawValue u2 < pointNine then 2 else 4 :: int"
  let ?s1 = "(snd (runCore direction s))\<lparr>lastGrid := Some (copyGrid (grid s)), lastScore := score s\<rparr>"
  have wf1: "wf_grid (grid ?s1)"
    using runCore_facts(1) [OF wf, of direction] by simp
  have sum1: "gridSum (grid ?s1) = gridSum (grid s)"
    using runCore_facts(2) [OF wf, of direction] by simp
  have "hasZero (grid ?s1)"
    using runCore_facts(4) [OF wf, of direction] m by simp
  then have ne: "emptyCells (grid ?s1) \<noteq> []"
    using hasZero_emptyCells [OF wf1] by simp
  from addRandomTile_effect [OF wf1 draw ne, of u2]
  obtain r c where r: "r < SIZE" and c: "c < SIZE" and zero: "grid ?s1 ! r ! c = 0"
    and add: "addRandomTile u1 u2 ?s1 =
        (Some (r, c),
         ?s1\<lparr>grid := (grid ?s1)[r := (grid ?s1 ! r)[c := ?v]], lastAddedPos := Some (r, c)\<rparr>)"
    by blast
  let ?g2 = "(grid ?s1)[r := (grid ?s1 ! r)[c := ?v]]"
  have hm: "handleMove direction u1 u2 s = checkGameState (render (snd (addRandomTile u1 u2 ?s1)))"
    using play m by (rule handleMove_changed)
  have g: "grid (handleMove direction u1 u2 s) = ?g2"
    and p: "lastAddedPos (handleMove direction u1 u2 s) = Some (r, c)"
    unfolding hm add by (simp_all add: checkGameState_frame render_frame)
  have "gridSum ?g2 = gridSum (grid ?s1) + ?v - grid ?s1 ! r ! c"
    by (rule cell_write(2) [OF wf1 r c])
  then have s: "gridSum ?g2 - gridSum (grid s) = ?v"
    unfolding zero sum1 by simp
  have v: "?g2 ! r ! c = ?v"
    by (rule cell_write(4) [OF wf1 r c])
  have sp: "spawnedValue (handleMove direction u1 u2 s) = ?v"
    unfolding spawnedValue_def p g using v by simp
  have "score (handleMove direction u1 u2 s) = score (snd (runCore direction s))"
    unfolding hm by (simp add: checkGameState_frame render_frame addRandomTile_frame)
  then have sc: "score (handleMove direction u1 u2 s) = score s + max 0 (moveGain direction (grid s))"
    by (simp add: runCore_score [OF wf])
  have "score (handleMove direction u1 u2 s) - score s = moveGain direction (grid s)"
    if "tileGrid (grid s)"
    using moveGain_nonneg [OF wf that, of direction] sc by simp
  with sc show ?thesis
    unfolding sp using s g p by simp
qed

theorem handleMove_sum_change_witness:
  "wf_grid (grid pairState) \<and> unitDraw drawZero \<and> changed ''left'' pairState
   \<and> tileGrid (grid pairState)
   \<and> gridSum (grid (handleMove ''left'' drawZero drawZero pairState)) - gridSum (grid pairState) = 2
   \<and> spawnedValue (handleMove ''left'' drawZero drawZero pairState) = 2
   \<and> moveGain ''left'' (grid pairState) = 4
   \<and> score (handleMove ''left'' drawZero drawZero pairState) - score pairState = 4"
proof -
  from handleMove_sum_change [OF wf_pairState unitDraw_drawZero changed_left_pairState, of drawZero]
    wf_pairState unitDraw_drawZero changed_left_pairState tileGrid_pairState
    moveGain_left_pairState drawZero_below
  show ?thesis
    by simp
qed

text \<open>
  C2 as stated fails: moving the row 2 2 0 0 to the left gains 4 and spawns a 2, and the
  sum of the cells goes from 4 to 6, not to 4 + 4 + 2.
\<close>

theorem handleMove_sum_counterexample:
  "changed ''left'' pairState
   \<and> gridSum (grid (handleMove ''left'' drawZero drawZero pairState)) - gridSum (grid pairState)
       \<noteq> (score (handleMove ''left'' drawZero drawZero pairState) - score pairState)
           + spawnedValue (handleMove ''left'' drawZero drawZero pairState)"
  using changed_left_pairState
  by (simp add: handleMove_left_pairState spawnedValue_def gridSum_def) (simp add: pairState_def)

text \<open>
  C6. On a 4 by 4 grid, a move attempt that is not a changed move leaves grid, score, best
  score, snapshot and flags as they were: a rejected attempt leaves the whole state, and
  any other leaves the state with \<open>mergedMap\<close> emptied and \<open>lastAddedPos\<close> reset (no merge
  and no spawn to show). The snapshot held before the attempt stays in place.
\<close>

theorem handleMove_unchanged_is_noop:
  assumes wf: "wf_grid (grid s)" and idle: "\<not> changed direction s"
  shows "handleMove direction u1 u2 s =
      (if gameOver s \<or> gameWon s then s else s\<lparr>mergedMap := {}, lastAddedPos := None\<rparr>)
    \<and> grid (handleMove direction u1 u2 s) = grid s
    \<and> score (handleMove direction u1 u2 s) = score s
    \<and> bestScore (handleMove direction u1 u2 s) = bestScore s
    \<and> lastGrid (handleMove direction u1 u2 s) = lastGrid s
    \<and> lastScore (handleMove direction u1 u2 s) = lastScore s
    \<and> gameOver (handleMove direction u1 u2 s) = gameOver s
    \<and> gameWon (handleMove direction u1 u2 s) = gameWon s
    \<and> (\<not> (gameOver s \<or> gameWon s) \<longrightarrow>
         mergedMap (handleMove direction u1 u2 s) = {}
         \<and> lastAddedPos (handleMove direction u1 u2 s) = None)"
  unfolding handleMove_idle [OF wf idle] by simp

theorem handleMove_unchanged_is_noop_witness:
  "wf_grid (grid pairState) \<and> \<not> changed ''up'' pairState
   \<and> handleMove ''up'' drawZero drawZero pairState = pairState"
proof -
  have idle: "\<not> changed ''up'' pairState"
    by (simp add: changed_def runCore_up_pairState)
  have p: "pairState\<lparr>mergedMap := {}, lastAddedPos := None\<rparr> = pairState"
    and q: "\<not> (gameOver pairState \<or> gameWon pairState)"
    by (simp_all add: pairState_def)
  from handleMove_unchanged_is_noop [OF wf_pairState idle, of drawZero drawZero] wf_pairState idle p q
  show ?thesis
    by simp
qed

text \<open>
  C8, as amended. \<open>handleMove\<close> does not validate its argument: for a direction other
  than the four names no movement function runs, the call completes normally and counts as
  an unchanged move, leaving grid, score, snapshot and flags as they were (outside a
  terminal state \<open>mergedMap\<close> and \<open>lastAddedPos\<close> are reset).
\<close>

theorem handleMove_invalid_direction:
  assumes "direction \<notin> {''left'', ''right'', ''up'', ''down''}"
  shows "handleMoveCompletion direction u1 u2 s =
      Inr (if gameOver s \<or> gameWon s then s else s\<lparr>mergedMap := {}, lastAddedPos := None\<rparr>)
    \<and> \<not> changed direction s"
  using assms
  by (simp add: handleMoveCompletion_def handleMove_def runCore_other changed_def)

theorem handleMove_invalid_direction_witness:
  "''diagonal'' \<notin> {''left'', ''right'', ''up'', ''down''}
   \<and> handleMoveCompletion ''diagonal'' drawZero drawZero pairState = Inr pairState"
proof -
  have d: "''diagonal'' \<notin> {''left'', ''right'', ''up'', ''down''}"
    by simp
  have p: "pairState\<lparr>mergedMap := {}, lastAddedPos := None\<rparr> = pairState"
    and q: "\<not> (gameOver pairState \<or> gameWon pairState)"
    by (simp_all add: pairState_def)
  from handleMove_invalid_direction [OF d, of drawZero drawZero pairState] d p q
  show ?thesis
    by simp
qed

text \<open>
  C8 as stated fails: the call with the direction \<open>diagonal\<close> does not end in an
  \<open>InvalidArgument\<close> error.
\<close>

theorem handleMove_invalid_direction_counterexample:
  "handleMoveCompletion ''diagonal'' drawZero drawZero pairState \<noteq> Inl InvalidArgument"
  by (simp add: handleMoveCompletion_def)

end
